theory Spec2Isabelle
  imports Main "HOL-Library.AList"
begin

section \<open>JavaScript values and the host's primitives\<close>

text \<open>
  The migrations of \<^verbatim>\<open>activated-effect.mjs\<close> and \<^verbatim>\<open>creature.mjs\<close> work on the stored
  source data of a document: a tree of plain objects, strings, numbers, booleans and
  \<^verbatim>\<open>null\<close>. A value is one of JavaScript's primitives or an object, and an object is the
  list of its own properties in insertion order. The source data is a tree (it comes from
  stored JSON), so no two paths reach the same object and in-place mutation is the
  replacement of a sub-tree. Arrays are objects whose keys are indices; the migrations read
  no index of one.

  Numbers are kept abstract (the type variable \<open>'n\<close>): the migrations never compute with a
  number, they only hand numbers and strings to primitives of the host.
  Strings are lists of 8-bit code units.
\<close>

datatype 'n jsval =
    Undefined
  | Null
  | Bool bool
  | Num 'n
  | Str string
  | Obj "(string \<times> 'n jsval) list"

type_synonym 'n obj = "(string \<times> 'n jsval) list"

datatype error = TypeError

text \<open>
  The primitives of the JavaScript engine and of the host application that the migrations
  call on numbers. None of them is code of this package, so each is a parameter:
  \<^item> \<open>isZero n\<close>: \<^verbatim>\<open>n\<close> is \<^verbatim>\<open>0\<close> for \<^verbatim>\<open>Array.prototype.includes\<close> (either zero);
  \<^item> \<open>numToString n\<close>: \<^verbatim>\<open>n.toString()\<close>;
  \<^item> \<open>isNumeric v\<close>: the host's \<^verbatim>\<open>Number.isNumeric(v)\<close>;
  \<^item> \<open>toNumber v\<close>: \<^verbatim>\<open>Number(v)\<close>;
  \<^item> \<open>toNearestHalf n\<close>: the host's \<^verbatim>\<open>n.toNearest(0.5)\<close>.
\<close>

record 'n host =
  isZero :: "'n \<Rightarrow> bool"
  numToString :: "'n \<Rightarrow> string"
  isNumeric :: "'n jsval \<Rightarrow> bool"
  toNumber :: "'n jsval \<Rightarrow> 'n"
  toNearestHalf :: "'n \<Rightarrow> 'n"

subsection \<open>Property access\<close>

text \<open>
  \<^verbatim>\<open>k in o\<close> for the literal keys that the item migrations test on the source,
  \<^verbatim>\<open>"range"\<close>, \<^verbatim>\<open>"uses"\<close> and \<^verbatim>\<open>"consume"\<close>: none of them is a property name that an object
  inherits, so the test is one of the own properties.
\<close>

definition has_key :: "'n obj \<Rightarrow> string \<Rightarrow> bool" where
  "has_key s k = (k \<in> fst ` set s)"

text \<open>\<^verbatim>\<open>source.k\<close> on the source object: the own property, or \<^verbatim>\<open>undefined\<close>.\<close>

definition lookup :: "'n obj \<Rightarrow> string \<Rightarrow> 'n jsval" where
  "lookup s k = (case map_of s k of None \<Rightarrow> Undefined | Some v \<Rightarrow> v)"

text \<open>
  \<^verbatim>\<open>v.k\<close>: a TypeError on \<^verbatim>\<open>null\<close> and \<^verbatim>\<open>undefined\<close>; \<^verbatim>\<open>undefined\<close> on the other
  primitives, whose prototypes have none of the property names the migrations read.
\<close>

definition get :: "'n jsval \<Rightarrow> string \<Rightarrow> error + 'n jsval" where
  "get v k =
     (case v of
        Obj ps \<Rightarrow> Inr (lookup ps k)
      | Undefined \<Rightarrow> Inl TypeError
      | Null \<Rightarrow> Inl TypeError
      | _ \<Rightarrow> Inr Undefined)"

text \<open>\<^verbatim>\<open>v?.k\<close>: as \<^verbatim>\<open>v.k\<close>, but \<^verbatim>\<open>undefined\<close> on \<^verbatim>\<open>null\<close> and \<^verbatim>\<open>undefined\<close>.\<close>

definition getq :: "'n jsval \<Rightarrow> string \<Rightarrow> 'n jsval" where
  "getq v k = (case v of Obj ps \<Rightarrow> lookup ps k | _ \<Rightarrow> Undefined)"

text \<open>
  \<^verbatim>\<open>v.k = x\<close>. The files are ES modules, so the code is strict: assigning a property of a
  primitive throws a TypeError, as it does on \<^verbatim>\<open>null\<close> and \<^verbatim>\<open>undefined\<close>. On an object
  an existing property keeps its place and a new one is added last.
\<close>

definition put :: "'n jsval \<Rightarrow> string \<Rightarrow> 'n jsval \<Rightarrow> error + 'n jsval" where
  "put v k x = (case v of Obj ps \<Rightarrow> Inr (Obj (AList.update k x ps)) | _ \<Rightarrow> Inl TypeError)"

text \<open>
  The property names of \<^verbatim>\<open>Object.prototype\<close>, which every plain object inherits. Each is
  a writable data property, which an assignment shadows by an own property, except
  \<^verbatim>\<open>__proto__\<close>, an accessor.
\<close>

definition object_prototype :: "string list" where
  "object_prototype =
     [''constructor'', ''__defineGetter__'', ''__defineSetter__'', ''hasOwnProperty'',
      ''__lookupGetter__'', ''__lookupSetter__'', ''isPrototypeOf'', ''propertyIsEnumerable'',
      ''toString'', ''valueOf'', ''__proto__'', ''toLocaleString'']"

text \<open>
  \<^verbatim>\<open>k in o\<close> for a computed key \<open>k\<close> and a plain object whose own keys are \<open>ks\<close>: the key is
  an own property or an inherited one.
\<close>

definition js_in :: "string \<Rightarrow> string list \<Rightarrow> bool" where
  "js_in k ks = (k \<in> set ks \<or> k \<in> set object_prototype)"

text \<open>
  \<^verbatim>\<open>v[k] = n\<close> for a computed key \<open>k\<close> and a number \<open>n\<close>. It is \<^verbatim>\<open>v.k = n\<close>, except for the key
  \<^verbatim>\<open>__proto__\<close> where that is not an own property of \<open>v\<close>: the assignment then calls the
  setter of \<^verbatim>\<open>Object.prototype\<close>, which ignores a number, and completes without a change,
  on an object and on a primitive alike.
\<close>

definition put_number :: "'n jsval \<Rightarrow> string \<Rightarrow> 'n \<Rightarrow> error + 'n jsval" where
  "put_number v k n =
     (case v of
        Obj ps \<Rightarrow> if k = ''__proto__'' \<and> \<not> has_key ps k then Inr v else put v k (Num n)
      | Undefined \<Rightarrow> Inl TypeError
      | Null \<Rightarrow> Inl TypeError
      | _ \<Rightarrow> if k = ''__proto__'' then Inr v else put v k (Num n))"

definition typeof :: "'n jsval \<Rightarrow> string" where
  "typeof v =
     (case v of
        Undefined \<Rightarrow> ''undefined''
      | Null \<Rightarrow> ''object''
      | Bool _ \<Rightarrow> ''boolean''
      | Num _ \<Rightarrow> ''number''
      | Str _ \<Rightarrow> ''string''
      | Obj _ \<Rightarrow> ''object'')"

text \<open>\<^verbatim>\<open>v === undefined || v === null\<close>, the test of \<^verbatim>\<open>??=\<close>.\<close>

definition nullish :: "'n jsval \<Rightarrow> bool" where
  "nullish v = (v = Undefined \<or> v = Null)"

subsection \<open>Statements\<close>

text \<open>
  A statement mutates the source in place and completes or throws: it maps the source to
  the source it leaves behind and the error thrown, if any. What was written before a
  throw stays written.
\<close>

type_synonym 'n stmt = "'n obj \<Rightarrow> 'n obj \<times> error option"

definition skip :: "'n stmt" where
  "skip s = (s, None)"

definition seq :: "'n stmt \<Rightarrow> 'n stmt \<Rightarrow> 'n stmt" where
  "seq f g s = (case f s of (s', None) \<Rightarrow> g s' | (s', Some e) \<Rightarrow> (s', Some e))"

text \<open>Evaluate an expression that may throw and continue with its value.\<close>

definition eval_then :: "error + 'a \<Rightarrow> ('a \<Rightarrow> 'n stmt) \<Rightarrow> 'n stmt" where
  "eval_then r f s = (case r of Inl e \<Rightarrow> (s, Some e) | Inr v \<Rightarrow> f v s)"

text \<open>\<^verbatim>\<open>source.k1.k2 = x\<close>.\<close>

definition assign2 :: "string \<Rightarrow> string \<Rightarrow> 'n jsval \<Rightarrow> 'n stmt" where
  "assign2 k1 k2 x s =
     (case put (lookup s k1) k2 x of
        Inl e \<Rightarrow> (s, Some e)
      | Inr o' \<Rightarrow> (AList.update k1 o' s, None))"

text \<open>\<^verbatim>\<open>source.k1.k2[k3] = x\<close>.\<close>

definition assign3 :: "string \<Rightarrow> string \<Rightarrow> string \<Rightarrow> 'n jsval \<Rightarrow> 'n stmt" where
  "assign3 k1 k2 k3 x s =
     (case get (lookup s k1) k2 of
        Inl e \<Rightarrow> (s, Some e)
      | Inr inner \<Rightarrow>
          (case put inner k3 x of
             Inl e \<Rightarrow> (s, Some e)
           | Inr inner' \<Rightarrow> assign2 k1 k2 inner' s))"

text \<open>\<^verbatim>\<open>source.k1.k2[k3] = n\<close> for a computed key and a number.\<close>

definition assign3_number :: "string \<Rightarrow> string \<Rightarrow> string \<Rightarrow> 'n \<Rightarrow> 'n stmt" where
  "assign3_number k1 k2 k3 n s =
     (case get (lookup s k1) k2 of
        Inl e \<Rightarrow> (s, Some e)
      | Inr inner \<Rightarrow>
          (case put_number inner k3 n of
             Inl e \<Rightarrow> (s, Some e)
           | Inr inner' \<Rightarrow> assign2 k1 k2 inner' s))"

subsection \<open>Strings\<close>

text \<open>\<^verbatim>\<open>str.split(c)\<close> for a one-character separator: never the empty list.\<close>

fun split_on :: "char \<Rightarrow> string \<Rightarrow> string list" where
  "split_on c [] = [[]]"
| "split_on c (x # xs) =
     (if x = c then [] # split_on c xs
      else (case split_on c xs of [] \<Rightarrow> [[x]] | y # ys \<Rightarrow> (x # y) # ys))"

section \<open>ActivatedEffectTemplate\<close>

text \<open>\<^verbatim>\<open>[0, "0", null].includes(x)\<close>.\<close>

definition zero_or_null :: "'n host \<Rightarrow> 'n jsval \<Rightarrow> bool" where
  "zero_or_null h x =
     (case x of Num n \<Rightarrow> isZero h n | Str str \<Rightarrow> str = ''0'' | Null \<Rightarrow> True | _ \<Rightarrow> False)"

text \<open>
  One line pair of \<^verbatim>\<open>#migrateFormulaFields\<close>, at the path \<^verbatim>\<open>source.k1?.k2\<close>:
  \<^verbatim>\<open>if ( [0, "0", null].includes(source.k1?.k2) ) source.k1.k2 = "";\<close>
  \<^verbatim>\<open>else if ( typeof source.k1?.k2 === "number" ) source.k1.k2 = source.k1.k2.toString();\<close>
\<close>

definition formula_field :: "'n host \<Rightarrow> string \<Rightarrow> string \<Rightarrow> 'n stmt" where
  "formula_field h k1 k2 s =
     (if zero_or_null h (getq (lookup s k1) k2) then assign2 k1 k2 (Str '''') s
      else (case getq (lookup s k1) k2 of
              Num n \<Rightarrow> assign2 k1 k2 (Str (numToString h n)) s
            | _ \<Rightarrow> skip s))"

definition migrateFormulaFields :: "'n host \<Rightarrow> 'n stmt" where
  "migrateFormulaFields h =
     seq (formula_field h ''uses'' ''max'') (formula_field h ''duration'' ''value'')"

text \<open>
  \<^verbatim>\<open>#migrateRanges\<close>. The three statements after the \<^verbatim>\<open>in\<close> test: the units, the long
  range, and the value with its early returns.
\<close>

definition ranges_units :: "'n stmt" where
  "ranges_units s =
     eval_then (get (lookup s ''range'') ''units'')
       (\<lambda>units. if units = Null then assign2 ''range'' ''units'' (Str '''') else skip) s"

definition ranges_long :: "'n host \<Rightarrow> 'n stmt" where
  "ranges_long h s =
     eval_then (get (lookup s ''range'') ''long'')
       (\<lambda>long.
          if typeof long = ''string'' then
            (if long = Str '''' then assign2 ''range'' ''long'' Null
             else if isNumeric h long then assign2 ''range'' ''long'' (Num (toNumber h long))
             else skip)
          else skip) s"

definition ranges_value :: "'n host \<Rightarrow> 'n stmt" where
  "ranges_value h s =
     eval_then (get (lookup s ''range'') ''value'')
       (\<lambda>v. case v of
          Str str \<Rightarrow>
            (if str = '''' then assign2 ''range'' ''value'' Null
             else
               (let parts = split_on CHR ''/'' str;
                    value = (case parts of [] \<Rightarrow> Undefined | a # _ \<Rightarrow> Str a);
                    long = (case parts of a # b # _ \<Rightarrow> Str b | _ \<Rightarrow> Undefined)
                in seq (if isNumeric h value
                        then assign2 ''range'' ''value'' (Num (toNumber h value)) else skip)
                       (if isNumeric h long
                        then assign2 ''range'' ''long'' (Num (toNumber h long)) else skip)))
        | _ \<Rightarrow> skip) s"

definition migrateRanges :: "'n host \<Rightarrow> 'n stmt" where
  "migrateRanges h s =
     (if \<not> has_key s ''range'' then (s, None)
      else seq ranges_units (seq (ranges_long h) (ranges_value h)) s)"

text \<open>\<^verbatim>\<open>#migrateTargets\<close>.\<close>

definition migrateTargets :: "'n stmt" where
  "migrateTargets =
     seq (\<lambda>s. if getq (lookup s ''target'') ''value'' = Str ''''
               then assign2 ''target'' ''value'' Null s else skip s)
    (seq (\<lambda>s. if getq (lookup s ''target'') ''units'' = Null
               then assign2 ''target'' ''units'' (Str '''') s else skip s)
         (\<lambda>s. if getq (lookup s ''target'') ''type'' = Null
               then assign2 ''target'' ''type'' (Str '''') s else skip s))"

text \<open>\<^verbatim>\<open>#migrateUses\<close>.\<close>

definition uses_value :: "'n host \<Rightarrow> 'n stmt" where
  "uses_value h s =
     eval_then (get (lookup s ''uses'') ''value'')
       (\<lambda>v. if typeof v = ''string'' then
               (if v = Str '''' then assign2 ''uses'' ''value'' Null
                else if isNumeric h v then assign2 ''uses'' ''value'' (Num (toNumber h v))
                else skip)
             else skip) s"

definition uses_recovery :: "'n stmt" where
  "uses_recovery s =
     eval_then (get (lookup s ''uses'') ''recovery'')
       (\<lambda>r. if r = Undefined then assign2 ''uses'' ''recovery'' (Str '''') else skip) s"

definition migrateUses :: "'n host \<Rightarrow> 'n stmt" where
  "migrateUses h s =
     (if \<not> has_key s ''uses'' then (s, None)
      else seq (uses_value h) uses_recovery s)"

text \<open>\<^verbatim>\<open>#migrateConsume\<close>.\<close>

definition consume_type :: "'n stmt" where
  "consume_type s =
     eval_then (get (lookup s ''consume'') ''type'')
       (\<lambda>t. if t = Null then assign2 ''consume'' ''type'' (Str '''') else skip) s"

definition consume_amount :: "'n host \<Rightarrow> 'n stmt" where
  "consume_amount h s =
     eval_then (get (lookup s ''consume'') ''amount'')
       (\<lambda>amount.
          if typeof amount = ''string'' then
            (if amount = Str '''' then assign2 ''consume'' ''amount'' Null
             else if isNumeric h amount
               then assign2 ''consume'' ''amount'' (Num (toNumber h amount))
             else skip)
          else skip) s"

definition migrateConsume :: "'n host \<Rightarrow> 'n stmt" where
  "migrateConsume h s =
     (if \<not> has_key s ''consume'' then (s, None)
      else seq consume_type (consume_amount h) s)"

text \<open>\<^verbatim>\<open>ActivatedEffectTemplate.migrateData\<close>: the five migrations in the source's order.\<close>

definition migrateData :: "'n host \<Rightarrow> 'n stmt" where
  "migrateData h =
     seq (migrateFormulaFields h)
    (seq (migrateRanges h)
    (seq migrateTargets
    (seq (migrateUses h) (migrateConsume h))))"

section \<open>CreatureTemplate\<close>

subsection \<open>The string operations of the senses migration\<close>

text \<open>
  White space for \<^verbatim>\<open>String.prototype.trim\<close> and for \<^verbatim>\<open>\s\<close>, among 8-bit code units:
  tab, line feed, vertical tab, form feed, carriage return, space and no-break space.
\<close>

definition is_space :: "char \<Rightarrow> bool" where
  "is_space c = (of_char c \<in> {9, 10, 11, 12, 13, 32, 160 :: nat})"

text \<open>
  The class \<^verbatim>\<open>[A-z]\<close>: every code unit from \<^verbatim>\<open>A\<close> (65) to \<^verbatim>\<open>z\<close> (122), which takes in
  the six characters between \<^verbatim>\<open>Z\<close> and \<^verbatim>\<open>a\<close>.
\<close>

definition is_Az :: "char \<Rightarrow> bool" where
  "is_Az c = (65 \<le> (of_char c :: nat) \<and> (of_char c :: nat) \<le> 122)"

definition is_digit :: "char \<Rightarrow> bool" where
  "is_digit c = (48 \<le> (of_char c :: nat) \<and> (of_char c :: nat) \<le> 57)"

definition trim :: "string \<Rightarrow> string" where
  "trim str = rev (dropWhile is_space (rev (dropWhile is_space str)))"

text \<open>
  \<^verbatim>\<open>toLowerCase\<close> on the code units it is applied to: the migration lowers the first group
  of a match only, whose characters are all in \<^verbatim>\<open>[A-z]\<close>.
\<close>

definition lower_char :: "char \<Rightarrow> char" where
  "lower_char c =
     (if 65 \<le> (of_char c :: nat) \<and> (of_char c :: nat) \<le> 90
      then char_of (of_char c + (32 :: nat)) else c)"

definition toLowerCase :: "string \<Rightarrow> string" where
  "toLowerCase str = map lower_char str"

text \<open>
  \<^verbatim>\<open>str.match(/([A-z]+)\s?([0-9]+)\s?([A-z]+)?/)\<close>: the leftmost match, as its first two
  groups. \<open>match_here\<close> matches at the start of a string. The greedy \<^verbatim>\<open>[A-z]+\<close> takes the
  whole run of class characters, and no shorter run can be followed by white space or a
  digit, for the character after a shorter run is in the class; \<^verbatim>\<open>\s?\<close> takes one white
  space when there is one, and without it no digit follows either; \<^verbatim>\<open>[0-9]+\<close> takes the
  whole run of digits, and the rest of the pattern matches the empty string. The migration
  reads groups 1 and 2 only.
\<close>

definition match_here :: "string \<Rightarrow> (string \<times> string) option" where
  "match_here str =
     (let name = takeWhile is_Az str;
          rest = dropWhile is_Az str;
          rest' = (case rest of c # cs \<Rightarrow> if is_space c then cs else rest | [] \<Rightarrow> []);
          digits = takeWhile is_digit rest'
      in if name \<noteq> [] \<and> digits \<noteq> [] then Some (name, digits) else None)"

fun match_pattern :: "string \<Rightarrow> (string \<times> string) option" where
  "match_pattern [] = None"
| "match_pattern (c # cs) =
     (case match_here (c # cs) of Some m \<Rightarrow> Some m | None \<Rightarrow> match_pattern cs)"

subsection \<open>The senses migration\<close>

text \<open>
  The body of the loop over the comma-separated terms, for one term: the source and
  \<^verbatim>\<open>wasMatched\<close> before and after. \<open>cfg\<close> lists the sense types, the own keys of the plain
  object \<^verbatim>\<open>CONFIG.DND5E.senses\<close>; the configuration is not part of these files. The test
  \<^verbatim>\<open>type in CONFIG.DND5E.senses\<close> holds for these and for the names the object inherits, of
  which a lowercased match can spell two, \<^verbatim>\<open>constructor\<close> and \<^verbatim>\<open>__proto__\<close>.
\<close>

definition senses_term ::
  "'n host \<Rightarrow> string list \<Rightarrow> string \<Rightarrow> 'n obj \<times> bool \<Rightarrow> ('n obj \<times> bool) \<times> error option" where
  "senses_term h cfg term st =
     (case match_pattern (trim term) of
        None \<Rightarrow> (st, None)
      | Some (name, digits) \<Rightarrow>
          (let type = toLowerCase name in
           if js_in type cfg then
             (case assign3_number ''attributes'' ''senses'' type
                     (toNearestHalf h (toNumber h (Str digits))) (fst st) of
                (s', None) \<Rightarrow> ((s', True), None)
              | (s', Some e) \<Rightarrow> ((s', snd st), Some e))
           else (st, None)))"

fun senses_loop ::
  "'n host \<Rightarrow> string list \<Rightarrow> string list \<Rightarrow> 'n obj \<times> bool \<Rightarrow> ('n obj \<times> bool) \<times> error option" where
  "senses_loop h cfg [] st = (st, None)"
| "senses_loop h cfg (term # terms) st =
     (case senses_term h cfg term st of
        (st', None) \<Rightarrow> senses_loop h cfg terms st'
      | (st', Some e) \<Rightarrow> (st', Some e))"

text \<open>\<^verbatim>\<open>CreatureTemplate.#migrateSensesData\<close>.\<close>

definition migrateSensesData :: "'n host \<Rightarrow> string list \<Rightarrow> 'n stmt" where
  "migrateSensesData h cfg s =
     (case getq (lookup s ''traits'') ''senses'' of
        Str original \<Rightarrow>
          seq (\<lambda>s. if nullish (lookup s ''attributes'')
                    then (AList.update ''attributes'' (Obj []) s, None) else skip s)
         (seq (\<lambda>s. eval_then (get (lookup s ''attributes'') ''senses'')
                      (\<lambda>v. if nullish v then assign2 ''attributes'' ''senses'' (Obj [])
                            else skip) s)
              (\<lambda>s. case senses_loop h cfg (split_on CHR '','' original) (s, False) of
                      ((s', wasMatched), None) \<Rightarrow>
                        if \<not> wasMatched \<and> original \<noteq> ''''
                        then assign3 ''attributes'' ''senses'' ''special'' (Str original) s'
                        else skip s'
                    | ((s', _), Some e) \<Rightarrow> (s', Some e))) s
      | _ \<Rightarrow> (s, None))"

text \<open>
  \<^verbatim>\<open>CreatureTemplate.migrateData\<close>: the migration of the parent template, which is not
  part of these files and is a parameter, then the senses migration.
\<close>

definition creature_migrateData :: "'n stmt \<Rightarrow> 'n host \<Rightarrow> string list \<Rightarrow> 'n stmt" where
  "creature_migrateData super h cfg = seq super (migrateSensesData h cfg)"

section \<open>A host over the integers\<close>

text \<open>
  The host's primitives restricted to integer numbers (below \<open>10\<^sup>2\<^sup>1\<close>, which the engine
  prints in full) and to plain decimal numerals, on which they are \<^verbatim>\<open>Number\<close>,
  \<^verbatim>\<open>Number.isNumeric\<close>, \<^verbatim>\<open>toString\<close> and \<^verbatim>\<open>toNearest(0.5)\<close> of the engine and the host.
  It serves to run the migrations on sample documents.
\<close>

fun nat_digits :: "nat \<Rightarrow> string" where
  "nat_digits n =
     (if n < 10 then [char_of (48 + n)]
      else nat_digits (n div 10) @ [char_of (48 + n mod 10)])"

declare nat_digits.simps [simp del]

definition int_toString :: "int \<Rightarrow> string" where
  "int_toString i = (if i < 0 then CHR ''-'' # nat_digits (nat (- i)) else nat_digits (nat i))"

definition digits_value :: "string \<Rightarrow> nat" where
  "digits_value ds = foldl (\<lambda>acc c. 10 * acc + (of_char c - 48)) 0 ds"

definition is_numeral :: "string \<Rightarrow> bool" where
  "is_numeral str =
     (case str of
        [] \<Rightarrow> False
      | c # cs \<Rightarrow> if c = CHR ''-'' then cs \<noteq> [] \<and> list_all is_digit cs
                  else list_all is_digit str)"

definition numeral_value :: "string \<Rightarrow> int" where
  "numeral_value str =
     (case str of
        [] \<Rightarrow> 0
      | c # cs \<Rightarrow> if c = CHR ''-'' then - int (digits_value cs) else int (digits_value str))"

definition int_host :: "int host" where
  "int_host =
     \<lparr> isZero = (\<lambda>n. n = 0),
       numToString = int_toString,
       isNumeric =
         (\<lambda>v. case v of Num _ \<Rightarrow> True | Str str \<Rightarrow> is_numeral str | Bool _ \<Rightarrow> True
               | _ \<Rightarrow> False),
       toNumber =
         (\<lambda>v. case v of Num n \<Rightarrow> n | Str str \<Rightarrow> numeral_value str
               | Bool b \<Rightarrow> (if b then 1 else 0) | _ \<Rightarrow> 0),
       toNearestHalf = (\<lambda>n. n) \<rparr>"

section \<open>Sample documents\<close>

text \<open>
  The sense types of the system's configuration, an item with legacy data in every
  migrated field, an item with blank values, and six actors: one with parsable senses,
  one with free text, one with an empty string, one whose only term spells an inherited
  property name, one whose senses have been parsed in part, and one in the current shape,
  without a senses string.
\<close>

definition sample_senses :: "string list" where
  "sample_senses = [''blindsight'', ''darkvision'', ''tremorsense'', ''truesight'']"

definition sample_item :: "int obj" where
  "sample_item =
     [(''description'', Obj [(''value'', Str ''Longbow'')]),
      (''activation'', Obj [(''type'', Str ''action''), (''cost'', Num 1)]),
      (''duration'', Obj [(''value'', Num 10), (''units'', Str ''minute'')]),
      (''target'', Obj [(''value'', Str ''''), (''units'', Null), (''type'', Null)]),
      (''range'', Obj [(''value'', Str ''150/600''), (''long'', Str ''''), (''units'', Null)]),
      (''uses'', Obj [(''value'', Str ''3''), (''max'', Num 0), (''per'', Null)]),
      (''consume'', Obj [(''type'', Null), (''target'', Null), (''amount'', Str '''')])]"

definition sample_spent :: "int obj" where
  "sample_spent =
     [(''range'', Obj [(''value'', Str ''''), (''units'', Str ''ft'')]),
      (''uses'', Obj [(''value'', Str ''''), (''max'', Str ''3''), (''recovery'', Str ''1d4'')]),
      (''consume'', Obj [(''type'', Str ''ammo''), (''amount'', Str ''1'')])]"

definition sample_actor :: "int obj" where
  "sample_actor = [(''traits'', Obj [(''senses'', Str ''Darkvision 60 ft, Blindsight 30 ft.'')])]"

definition sample_hermit :: "int obj" where
  "sample_hermit = [(''traits'', Obj [(''senses'', Str ''Can smell fear'')])]"

definition sample_blank :: "int obj" where
  "sample_blank = [(''traits'', Obj [(''senses'', Str '''')])]"

definition sample_golem :: "int obj" where
  "sample_golem = [(''traits'', Obj [(''senses'', Str ''Constructor 60 ft'')])]"

definition sample_sensed :: "int obj" where
  "sample_sensed =
     [(''traits'', Obj [(''senses'', Str ''Darkvision 60 ft, Blindsight 30 ft.'')]),
      (''attributes'', Obj [(''senses'', Obj [(''darkvision'', Num 60)])])]"

definition sample_current :: "int obj" where
  "sample_current =
     [(''traits'', Obj [(''size'', Str ''med'')]),
      (''attributes'',
       Obj [(''senses'', Obj [(''darkvision'', Num 60), (''units'', Str ''ft'')])])]"

section \<open>Notions used in the statements\<close>

text \<open>\<^verbatim>\<open>source.k1?.k2\<close>, the value of a field of a sub-object of the source.\<close>

abbreviation field_of :: "'n obj \<Rightarrow> string \<Rightarrow> string \<Rightarrow> 'n jsval" where
  "field_of s k1 k2 \<equiv> getq (lookup s k1) k2"

text \<open>The properties of the source that \<^verbatim>\<open>ActivatedEffectTemplate.migrateData\<close> may write.\<close>

definition own_fields :: "string list" where
  "own_fields = [''duration'', ''range'', ''target'', ''uses'', ''consume'']"

text \<open>
  A migration is idempotent at a source when, if it completes there, running it again on
  the migrated source completes and changes nothing.
\<close>

definition idempotent_at :: "'n stmt \<Rightarrow> 'n obj \<Rightarrow> bool" where
  "idempotent_at f s = (snd (f s) = None \<longrightarrow> f (fst (f s)) = f s)"

text \<open>
  \<open>after f s k1 k2 x\<close>: the migration \<open>f\<close> completes on \<open>s\<close> and leaves \<open>x\<close> in the field;
  \<open>leaves f s k1 k2 x\<close>: it leaves \<open>x\<close> in the field whenever it completes.
\<close>

definition after :: "'n stmt \<Rightarrow> 'n obj \<Rightarrow> string \<Rightarrow> string \<Rightarrow> 'n jsval \<Rightarrow> bool" where
  "after f s k1 k2 x = (snd (f s) = None \<and> field_of (fst (f s)) k1 k2 = x)"

definition leaves :: "'n stmt \<Rightarrow> 'n obj \<Rightarrow> string \<Rightarrow> string \<Rightarrow> 'n jsval \<Rightarrow> bool" where
  "leaves f s k1 k2 x = (snd (f s) = None \<longrightarrow> field_of (fst (f s)) k1 k2 = x)"

text \<open>
  The shape of an item source on which none of the five migrations throws: each of
  \<^verbatim>\<open>range\<close>, \<^verbatim>\<open>uses\<close> and \<^verbatim>\<open>consume\<close> is absent or an object.
\<close>

definition objish :: "'n obj \<Rightarrow> string \<Rightarrow> bool" where
  "objish s k = (case map_of s k of None \<Rightarrow> True | Some (Obj _) \<Rightarrow> True | _ \<Rightarrow> False)"

definition item_shaped :: "'n obj \<Rightarrow> bool" where
  "item_shaped s = (objish s ''range'' \<and> objish s ''uses'' \<and> objish s ''consume'')"

text \<open>
  The shapes of \<^verbatim>\<open>source.attributes\<close> that the schema allows for: absent, \<^verbatim>\<open>null\<close>, or an
  object whose \<^verbatim>\<open>senses\<close> is absent, \<^verbatim>\<open>null\<close> or an object.
\<close>

definition senses_writable :: "'n obj \<Rightarrow> bool" where
  "senses_writable s =
     (case lookup s ''attributes'' of
        Undefined \<Rightarrow> True
      | Null \<Rightarrow> True
      | Obj a \<Rightarrow>
          (case lookup a ''senses'' of
             Undefined \<Rightarrow> True | Null \<Rightarrow> True | Obj _ \<Rightarrow> True | _ \<Rightarrow> False)
      | _ \<Rightarrow> False)"

text \<open>
  What the loop body reads off one comma-separated term: the lowercased first group and
  the digits of the second, when the pattern matches and the lowercased group is a key of
  the configured senses. The value the loop assigns is \<^verbatim>\<open>Number(digits).toNearest(0.5)\<close>.
\<close>

definition term_sense :: "string list \<Rightarrow> string \<Rightarrow> (string \<times> string) option" where
  "term_sense cfg term =
     (case match_pattern (trim term) of
        None \<Rightarrow> None
      | Some (name, digits) \<Rightarrow>
          if toLowerCase name \<in> set cfg then Some (toLowerCase name, digits) else None)"

text \<open>
  A term names a sense type when the pattern matches and the lowercased first group is a
  key of the configured senses. A term is recognized when the loop takes it for one: the
  pattern matches and the lowercased first group passes the test
  \<^verbatim>\<open>type in CONFIG.DND5E.senses\<close>, as a key of the configured senses or as a name that the
  object inherits.
\<close>

definition names_sense :: "string list \<Rightarrow> string \<Rightarrow> bool" where
  "names_sense cfg term = (term_sense cfg term \<noteq> None)"

definition recognized :: "string list \<Rightarrow> string \<Rightarrow> bool" where
  "recognized cfg term =
     (case match_pattern (trim term) of
        None \<Rightarrow> False
      | Some (name, digits) \<Rightarrow> js_in (toLowerCase name) cfg)"

definition sense_value :: "'n host \<Rightarrow> string \<Rightarrow> 'n jsval" where
  "sense_value h digits = Num (toNearestHalf h (toNumber h (Str digits)))"

abbreviation sense_in :: "'n obj \<Rightarrow> string \<Rightarrow> 'n jsval" where
  "sense_in s k \<equiv> getq (field_of s ''attributes'' ''senses'') k"

section \<open>Notions used in the proofs\<close>

text \<open>
  Each migration of the item template reads and writes one property \<open>k\<close> of the source:
  it leaves a source without \<open>k\<close> alone, rewrites an object under \<open>k\<close> by a function \<open>F\<close>
  on property lists, and on any other value under \<open>k\<close> leaves the source alone and
  completes or throws as \<open>E\<close> says.
\<close>

definition acts_on ::
  "string \<Rightarrow> ('n obj \<Rightarrow> 'n obj) \<Rightarrow> ('n jsval \<Rightarrow> error option) \<Rightarrow> 'n stmt \<Rightarrow> bool" where
  "acts_on k F E f =
     (\<forall>s. f s =
        (case map_of s k of
           None \<Rightarrow> (s, None)
         | Some (Obj r) \<Rightarrow> (AList.update k (Obj (F r)) s, None)
         | Some v \<Rightarrow> (s, E v)))"

text \<open>
  The functions on property lists that the statements of the migrations compute:
  defaulting one property, coercing a string property to \<^verbatim>\<open>null\<close> or a number, a formula
  field, and their compositions for \<^verbatim>\<open>range\<close>, \<^verbatim>\<open>target\<close>, \<^verbatim>\<open>uses\<close> and \<^verbatim>\<open>consume\<close>.
\<close>

definition default_field :: "string \<Rightarrow> 'n jsval \<Rightarrow> 'n jsval \<Rightarrow> 'n obj \<Rightarrow> 'n obj" where
  "default_field k x d r = (if lookup r k = x then AList.update k d r else r)"

definition coerce_field :: "'n host \<Rightarrow> string \<Rightarrow> 'n obj \<Rightarrow> 'n obj" where
  "coerce_field h k r =
     (case lookup r k of
        Str str \<Rightarrow>
          if str = '''' then AList.update k Null r
          else if isNumeric h (Str str) then AList.update k (Num (toNumber h (Str str))) r
          else r
      | _ \<Rightarrow> r)"

definition formula_obj :: "'n host \<Rightarrow> string \<Rightarrow> 'n obj \<Rightarrow> 'n obj" where
  "formula_obj h k r =
     (if zero_or_null h (lookup r k) then AList.update k (Str '''') r
      else (case lookup r k of Num n \<Rightarrow> AList.update k (Str (numToString h n)) r | _ \<Rightarrow> r))"

definition split_value :: "string \<Rightarrow> 'n jsval" where
  "split_value str = (case split_on CHR ''/'' str of [] \<Rightarrow> Undefined | a # _ \<Rightarrow> Str a)"

definition split_long :: "string \<Rightarrow> 'n jsval" where
  "split_long str = (case split_on CHR ''/'' str of a # b # _ \<Rightarrow> Str b | _ \<Rightarrow> Undefined)"

definition set_numeric :: "'n host \<Rightarrow> string \<Rightarrow> 'n jsval \<Rightarrow> 'n obj \<Rightarrow> 'n obj" where
  "set_numeric h k x r = (if isNumeric h x then AList.update k (Num (toNumber h x)) r else r)"

definition range_value_obj :: "'n host \<Rightarrow> 'n obj \<Rightarrow> 'n obj" where
  "range_value_obj h r =
     (case lookup r ''value'' of
        Str str \<Rightarrow>
          if str = '''' then AList.update ''value'' Null r
          else set_numeric h ''long'' (split_long str) (set_numeric h ''value'' (split_value str) r)
      | _ \<Rightarrow> r)"

definition ranges_obj :: "'n host \<Rightarrow> 'n obj \<Rightarrow> 'n obj" where
  "ranges_obj h r =
     range_value_obj h (coerce_field h ''long'' (default_field ''units'' Null (Str '''') r))"

definition targets_obj :: "'n obj \<Rightarrow> 'n obj" where
  "targets_obj r =
     default_field ''type'' Null (Str '''')
       (default_field ''units'' Null (Str '''') (default_field ''value'' (Str '''') Null r))"

definition uses_obj :: "'n host \<Rightarrow> 'n obj \<Rightarrow> 'n obj" where
  "uses_obj h r = default_field ''recovery'' Undefined (Str '''') (coerce_field h ''value'' r)"

definition consume_obj :: "'n host \<Rightarrow> 'n obj \<Rightarrow> 'n obj" where
  "consume_obj h r = coerce_field h ''amount'' (default_field ''type'' Null (Str '''') r)"

text \<open>
  \<open>keeps Q f\<close>: the statement \<open>f\<close> never changes the quantity \<open>Q\<close> of the source;
  \<open>settles f\<close>: where \<open>f\<close> completes, it completes again without a change;
  \<open>survives f g\<close>: a source that \<open>f\<close> leaves unchanged is still so after \<open>g\<close>.
\<close>

definition keeps :: "('n obj \<Rightarrow> 'a) \<Rightarrow> 'n stmt \<Rightarrow> bool" where
  "keeps Q f = (\<forall>s. Q (fst (f s)) = Q s)"

definition settles :: "'n stmt \<Rightarrow> bool" where
  "settles f = (\<forall>s. snd (f s) = None \<longrightarrow> f (fst (f s)) = (fst (f s), None))"

definition survives :: "'n stmt \<Rightarrow> 'n stmt \<Rightarrow> bool" where
  "survives f g = (\<forall>s. f s = (s, None) \<longrightarrow> f (fst (g s)) = (fst (g s), None))"

text \<open>
  The senses migration as a list of assignments to \<^verbatim>\<open>source.attributes.senses\<close>: one per
  recognized term, or the single assignment of \<^verbatim>\<open>special\<close>; \<open>upds\<close> performs them in
  order. Of the assignments of the terms, \<open>effective own\<close> keeps those that write: all but
  the ones to \<^verbatim>\<open>__proto__\<close>, unless that is an own property of the senses (\<open>own\<close>).
  \<open>ready s a v\<close> says that \<^verbatim>\<open>source.attributes\<close> is the object \<open>a\<close> and that its
  \<^verbatim>\<open>senses\<close> is \<open>v\<close>, not \<^verbatim>\<open>null\<close> or \<^verbatim>\<open>undefined\<close>: the state between the two \<^verbatim>\<open>??=\<close>
  statements (\<open>senses_init\<close>) and the rest of the function (\<open>senses_body\<close>).
\<close>

definition sense_of :: "'n host \<Rightarrow> string list \<Rightarrow> string \<Rightarrow> (string \<times> 'n) option" where
  "sense_of h cfg term =
     (case match_pattern (trim term) of
        None \<Rightarrow> None
      | Some (name, digits) \<Rightarrow>
          if js_in (toLowerCase name) cfg
          then Some (toLowerCase name, toNearestHalf h (toNumber h (Str digits)))
          else None)"

definition sense_updates :: "'n host \<Rightarrow> string list \<Rightarrow> string list \<Rightarrow> (string \<times> 'n jsval) list" where
  "sense_updates h cfg terms =
     map (\<lambda>p. (fst p, Num (snd p))) (List.map_filter (sense_of h cfg) terms)"

definition effective :: "bool \<Rightarrow> (string \<times> 'n jsval) list \<Rightarrow> (string \<times> 'n jsval) list" where
  "effective own ps = filter (\<lambda>p. fst p \<noteq> ''__proto__'' \<or> own) ps"

definition all_updates ::
  "'n host \<Rightarrow> string list \<Rightarrow> string \<Rightarrow> bool \<Rightarrow> (string \<times> 'n jsval) list" where
  "all_updates h cfg original own =
     (let ps = sense_updates h cfg (split_on CHR '','' original)
      in if ps = [] \<and> original \<noteq> '''' then [(''special'', Str original)]
         else effective own ps)"

definition upds :: "(string \<times> 'n jsval) list \<Rightarrow> 'n obj \<Rightarrow> 'n obj" where
  "upds ps r = fold (\<lambda>p. AList.update (fst p) (snd p)) ps r"

definition ready :: "'n obj \<Rightarrow> 'n obj \<Rightarrow> 'n jsval \<Rightarrow> bool" where
  "ready s a v =
     (map_of s ''attributes'' = Some (Obj a) \<and> map_of a ''senses'' = Some v \<and> \<not> nullish v)"

definition with_senses :: "'n obj \<Rightarrow> 'n obj \<Rightarrow> 'n obj \<Rightarrow> 'n obj" where
  "with_senses s a r = AList.update ''attributes'' (Obj (AList.update ''senses'' (Obj r) a)) s"

definition senses_init :: "'n stmt" where
  "senses_init =
     seq (\<lambda>s. if nullish (lookup s ''attributes'')
               then (AList.update ''attributes'' (Obj []) s, None) else skip s)
         (\<lambda>s. eval_then (get (lookup s ''attributes'') ''senses'')
                 (\<lambda>v. if nullish v then assign2 ''attributes'' ''senses'' (Obj [])
                       else skip) s)"

definition senses_body :: "'n host \<Rightarrow> string list \<Rightarrow> string \<Rightarrow> 'n stmt" where
  "senses_body h cfg original s =
     (case senses_loop h cfg (split_on CHR '','' original) (s, False) of
        ((s', wasMatched), None) \<Rightarrow>
          if \<not> wasMatched \<and> original \<noteq> ''''
          then assign3 ''attributes'' ''senses'' ''special'' (Str original) s'
          else skip s'
      | ((s', _), Some e) \<Rightarrow> (s', Some e))"

section \<open>Basic facts about property access and statements\<close>

lemma lookup_update: "lookup (AList.update k v s) k' = (if k' = k then v else lookup s k')"
  by (simp add: lookup_def update_conv')

lemma has_key_update: "has_key (AList.update k v s) k' = (k' = k \<or> has_key s k')"
  by (auto simp: has_key_def dom_update)

lemma has_key_map_of: "has_key s k = (map_of s k \<noteq> None)"
  by (simp add: has_key_def map_of_eq_None_iff)

lemma lookup_absent: "\<not> has_key s k \<Longrightarrow> lookup s k = Undefined"
  by (simp add: has_key_map_of lookup_def)

subsection \<open>The host over the integers and the sample documents\<close>

lemma nat_digits_nonempty: "nat_digits n \<noteq> []"
  by (subst nat_digits.simps) simp

lemma nat_digits_zero: "nat_digits n = ''0'' \<Longrightarrow> n = 0"
proof (cases "n < 10")
  case True
  assume "nat_digits n = ''0''"
  with True have "char_of (48 + n) = CHR ''0''" by (subst (asm) nat_digits.simps) simp
  then have "of_char (char_of (48 + n) :: char) = (of_char CHR ''0'' :: nat)" by simp
  with True show ?thesis by simp
next
  case False
  assume "nat_digits n = ''0''"
  with False have "nat_digits (n div 10) @ [char_of (48 + n mod 10)] = ''0''"
    by (subst (asm) nat_digits.simps) simp
  then have "nat_digits (n div 10) = []" by simp
  with nat_digits_nonempty show ?thesis by blast
qed

lemma int_host_zero: "\<forall>n. numToString int_host n = ''0'' \<longrightarrow> isZero int_host n"
  by (auto simp add: int_host_def int_toString_def dest: nat_digits_zero split: if_splits)

lemma sample_item_run:
  "migrateData int_host sample_item =
     ([(''description'', Obj [(''value'', Str ''Longbow'')]),
       (''activation'', Obj [(''type'', Str ''action''), (''cost'', Num 1)]),
       (''duration'', Obj [(''value'', Str ''10''), (''units'', Str ''minute'')]),
       (''target'', Obj [(''value'', Null), (''units'', Str ''''), (''type'', Str '''')]),
       (''range'', Obj [(''value'', Num 150), (''long'', Num 600), (''units'', Str '''')]),
       (''uses'', Obj [(''value'', Num 3), (''max'', Str ''''), (''per'', Null),
                       (''recovery'', Str '''')]),
       (''consume'', Obj [(''type'', Str ''''), (''target'', Null), (''amount'', Null)])],
      None)"
  by code_simp

lemma sample_actor_run:
  "migrateSensesData int_host sample_senses sample_actor =
     ([(''traits'', Obj [(''senses'', Str ''Darkvision 60 ft, Blindsight 30 ft.'')]),
       (''attributes'', Obj [(''senses'', Obj [(''darkvision'', Num 60), (''blindsight'', Num 30)])])],
      None)"
  by code_simp

lemmas stmt_defs =
  skip_def seq_def eval_then_def assign2_def assign3_def get_def getq_def put_def

lemma acts_onI:
  assumes "\<And>s. map_of s k = None \<Longrightarrow> f s = (s, None)"
    and "\<And>s r. map_of s k = Some (Obj r) \<Longrightarrow> f s = (AList.update k (Obj (F r)) s, None)"
    and "\<And>s v. map_of s k = Some v \<Longrightarrow> \<forall>r. v \<noteq> Obj r \<Longrightarrow> f s = (s, E v)"
  shows "acts_on k F E f"
  unfolding acts_on_def
proof
  fix s :: "'a obj"
  show "f s = (case map_of s k of None \<Rightarrow> (s, None)
         | Some (Obj r) \<Rightarrow> (AList.update k (Obj (F r)) s, None) | Some v \<Rightarrow> (s, E v))"
  proof (cases "map_of s k")
    case None
    with assms(1) [of s] show ?thesis by simp
  next
    case (Some v)
    show ?thesis
    proof (cases v)
      case (Obj r)
      with Some assms(2) [of s r] show ?thesis by simp
    qed (use Some assms(3) [of s v] in simp_all)
  qed
qed

lemma acts_on_absent: "acts_on k F E f \<Longrightarrow> map_of s k = None \<Longrightarrow> f s = (s, None)"
  unfolding acts_on_def by (erule allE [of _ s]) simp

lemma acts_on_obj:
  "acts_on k F E f \<Longrightarrow> map_of s k = Some (Obj r) \<Longrightarrow>
   f s = (AList.update k (Obj (F r)) s, None)"
  unfolding acts_on_def by (erule allE [of _ s]) simp

lemma acts_on_other:
  "acts_on k F E f \<Longrightarrow> map_of s k = Some v \<Longrightarrow> \<forall>r. v \<noteq> Obj r \<Longrightarrow> f s = (s, E v)"
  unfolding acts_on_def by (erule allE [of _ s], cases v) simp_all

lemma acts_on_result:
  assumes "acts_on k F E f"
  shows "(\<exists>e. f s = (s, e)) \<or>
         (\<exists>r. map_of s k = Some (Obj r) \<and> f s = (AList.update k (Obj (F r)) s, None))"
proof (cases "map_of s k")
  case None
  from acts_on_absent [OF assms None] show ?thesis by simp
next
  case (Some v)
  show ?thesis
  proof (cases "\<exists>r. v = Obj r")
    case True
    then obtain r where "v = Obj r" by blast
    with Some acts_on_obj [OF assms, of s r] show ?thesis by simp
  next
    case False
    with acts_on_other [OF assms Some] show ?thesis by simp
  qed
qed

lemma acts_on_map_of_other:
  assumes "acts_on k F E f" "k' \<noteq> k"
  shows "map_of (fst (f s)) k' = map_of s k'"
  using acts_on_result [OF assms(1), of s] assms(2) by (auto simp add: update_conv')

lemma update_present_keys: "map_of s k = Some v \<Longrightarrow> map fst (AList.update k x s) = map fst s"
  by (auto simp add: update_keys dest!: map_of_SomeD intro: rev_image_eqI)

lemma filter_update_out:
  "k \<in> K \<Longrightarrow> map_of s k = Some v \<Longrightarrow>
   filter (\<lambda>p. fst p \<notin> K) (AList.update k x s) = filter (\<lambda>p. fst p \<notin> K) s"
  by (induction s) (auto split: if_splits)

lemma acts_on_keys:
  assumes "acts_on k F E f"
  shows "map fst (fst (f s)) = map fst s"
  using acts_on_result [OF assms, of s] by (auto simp add: update_present_keys)

lemma acts_on_filter:
  assumes "acts_on k F E f" "k \<in> K"
  shows "filter (\<lambda>p. fst p \<notin> K) (fst (f s)) = filter (\<lambda>p. fst p \<notin> K) s"
  using acts_on_result [OF assms(1), of s] assms(2) by (auto simp add: filter_update_out)

lemma update_same_iff: "map_of s k = Some v \<Longrightarrow> (AList.update k x s = s) = (x = v)"
proof
  assume a: "map_of s k = Some v" "AList.update k x s = s"
  then have "map_of (AList.update k x s) k = Some v" by simp
  then show "x = v" by (simp add: update_conv')
qed (simp add: update_triv)

lemma acts_on_stable:
  assumes "acts_on k F E f"
  shows "(f s = (s, None)) =
         (case map_of s k of None \<Rightarrow> True | Some (Obj r) \<Rightarrow> F r = r | Some v \<Rightarrow> E v = None)"
proof (cases "map_of s k")
  case None
  with acts_on_absent [OF assms None] show ?thesis by simp
next
  case (Some v)
  show ?thesis
  proof (cases v)
    case (Obj r)
    with Some acts_on_obj [OF assms, of s r] show ?thesis by (simp add: update_same_iff)
  qed (use Some acts_on_other [OF assms Some] in simp_all)
qed

lemma acts_on_transfer:
  "acts_on k F E f \<Longrightarrow> map_of s' k = map_of s k \<Longrightarrow> f s = (s, None) \<Longrightarrow> f s' = (s', None)"
  by (simp add: acts_on_stable)

lemma acts_on_idem:
  assumes "acts_on k F E f" "\<And>r. F (F r) = F r"
  shows "f (fst (f s)) = f s"
proof (cases "map_of s k")
  case None
  with acts_on_absent [OF assms(1) None] show ?thesis by simp
next
  case (Some v)
  show ?thesis
  proof (cases v)
    case (Obj r)
    with Some have 1: "f s = (AList.update k (Obj (F r)) s, None)"
      using acts_on_obj [OF assms(1), of s r] by simp
    have "map_of (AList.update k (Obj (F r)) s) k = Some (Obj (F r))" by (simp add: update_conv')
    from acts_on_obj [OF assms(1) this] 1 show ?thesis by (simp add: assms(2))
  qed (use Some acts_on_other [OF assms(1) Some] in simp_all)
qed

lemma acts_on_after:
  assumes f: "acts_on k F E f" and g: "acts_on k' F' E' g" and ne: "k \<noteq> k'"
    and st: "f s = (s, None)"
  shows "f (fst (g s)) = (fst (g s), None)"
  using acts_on_transfer [OF f acts_on_map_of_other [OF g ne] st] .

section \<open>The migrations of the item template, one property each\<close>

lemmas body_defs = default_field_def coerce_field_def formula_obj_def split_value_def
  split_long_def set_numeric_def range_value_obj_def

lemma present_obj: "map_of s k = Some (Obj r) \<Longrightarrow> lookup s k = Obj r \<and> has_key s k"
  by (simp add: lookup_def has_key_map_of)

lemma formula_field_obj:
  "map_of s k1 = Some (Obj r) \<Longrightarrow>
   formula_field h k1 k2 s = (AList.update k1 (Obj (formula_obj h k2 r)) s, None)"
  by (auto simp add: formula_field_def formula_obj_def stmt_defs lookup_def update_triv
      split: jsval.splits)

lemma formula_field_acts: "acts_on k1 (formula_obj h k2) (\<lambda>_. None) (formula_field h k1 k2)"
proof (rule acts_onI)
  fix s :: "'a obj" assume "map_of s k1 = None"
  then show "formula_field h k1 k2 s = (s, None)"
    by (simp add: formula_field_def stmt_defs lookup_def zero_or_null_def)
next
  fix s :: "'a obj" and r assume "map_of s k1 = Some (Obj r)"
  then show "formula_field h k1 k2 s = (AList.update k1 (Obj (formula_obj h k2 r)) s, None)"
    by (rule formula_field_obj)
next
  fix s :: "'a obj" and v assume "map_of s k1 = Some v" "\<forall>r. v \<noteq> Obj r"
  then show "formula_field h k1 k2 s = (s, None)"
    by (cases v) (simp_all add: formula_field_def stmt_defs lookup_def zero_or_null_def)
qed

lemma ranges_units_obj:
  "map_of s ''range'' = Some (Obj r) \<Longrightarrow>
   ranges_units s = (AList.update ''range'' (Obj (default_field ''units'' Null (Str '''') r)) s, None)"
  by (auto simp add: ranges_units_def default_field_def stmt_defs lookup_def update_triv)

lemma ranges_long_obj:
  "map_of s ''range'' = Some (Obj r) \<Longrightarrow>
   ranges_long h s = (AList.update ''range'' (Obj (coerce_field h ''long'' r)) s, None)"
  by (auto simp add: ranges_long_def coerce_field_def stmt_defs lookup_def update_triv typeof_def
       split: jsval.splits)

lemma ranges_value_obj:
  "map_of s ''range'' = Some (Obj r) \<Longrightarrow>
   ranges_value h s = (AList.update ''range'' (Obj (range_value_obj h r)) s, None)"
  by (auto simp add: ranges_value_def body_defs stmt_defs lookup_def update_triv typeof_def
        Let_def update_conv'
       split: jsval.splits)

lemma migrateRanges_obj:
  assumes "map_of s ''range'' = Some (Obj r)"
  shows "migrateRanges h s = (AList.update ''range'' (Obj (ranges_obj h r)) s, None)"
proof -
  let ?r1 = "default_field ''units'' Null (Str '''') r"
  let ?s1 = "AList.update ''range'' (Obj ?r1) s"
  let ?r2 = "coerce_field h ''long'' ?r1"
  let ?s2 = "AList.update ''range'' (Obj ?r2) ?s1"
  have 1: "ranges_units s = (?s1, None)" by (rule ranges_units_obj [OF assms])
  have "map_of ?s1 ''range'' = Some (Obj ?r1)" by (simp add: update_conv')
  then have 2: "ranges_long h ?s1 = (?s2, None)" by (rule ranges_long_obj)
  have "map_of ?s2 ''range'' = Some (Obj ?r2)" by (simp add: update_conv')
  then have 3: "ranges_value h ?s2 = (AList.update ''range'' (Obj (range_value_obj h ?r2)) ?s2, None)"
    by (rule ranges_value_obj)
  from assms have "has_key s ''range''" by (simp add: has_key_map_of)
  with 1 2 3 show ?thesis by (simp add: migrateRanges_def seq_def ranges_obj_def)
qed

lemma migrateRanges_absent: "map_of s ''range'' = None \<Longrightarrow> migrateRanges h s = (s, None)"
  by (simp add: migrateRanges_def has_key_map_of)

lemma migrateRanges_other:
  "map_of s ''range'' = Some v \<Longrightarrow> \<forall>r. v \<noteq> Obj r \<Longrightarrow>
   migrateRanges h s = (s, if nullish v then Some TypeError else None)"
  by (cases v)
     (auto simp add: migrateRanges_def ranges_units_def ranges_long_def ranges_value_def
        stmt_defs lookup_def has_key_map_of typeof_def nullish_def)

lemma migrateRanges_acts:
  "acts_on ''range'' (ranges_obj h) (\<lambda>v. if nullish v then Some TypeError else None)
     (migrateRanges h)"
  by (rule acts_onI) (simp_all add: migrateRanges_absent migrateRanges_obj migrateRanges_other)

lemma target_stmt_obj:
  "map_of s ''target'' = Some (Obj r) \<Longrightarrow>
   (if getq (lookup s ''target'') k = x then assign2 ''target'' k d s else skip s)
   = (AList.update ''target'' (Obj (default_field k x d r)) s, None)"
  by (simp add: default_field_def stmt_defs lookup_def update_triv)

lemma migrateTargets_obj:
  assumes "map_of s ''target'' = Some (Obj r)"
  shows "migrateTargets s = (AList.update ''target'' (Obj (targets_obj r)) s, None)"
proof -
  let ?r1 = "default_field ''value'' (Str '''') Null r"
  let ?s1 = "AList.update ''target'' (Obj ?r1) s"
  let ?r2 = "default_field ''units'' Null (Str '''') ?r1"
  let ?s2 = "AList.update ''target'' (Obj ?r2) s"
  have m1: "map_of ?s1 ''target'' = Some (Obj ?r1)" by (simp add: update_conv')
  have m2: "map_of ?s2 ''target'' = Some (Obj ?r2)" by (simp add: update_conv')
  show ?thesis
    unfolding migrateTargets_def seq_def
    by (simp add: target_stmt_obj [OF assms] target_stmt_obj [OF m1] target_stmt_obj [OF m2]
          targets_obj_def)
qed

lemma migrateTargets_acts: "acts_on ''target'' targets_obj (\<lambda>_. None) migrateTargets"
proof (rule acts_onI)
  fix s :: "'a obj" assume "map_of s ''target'' = None"
  then show "migrateTargets s = (s, None)"
    by (simp add: migrateTargets_def stmt_defs lookup_def)
next
  fix s :: "'a obj" and r assume "map_of s ''target'' = Some (Obj r)"
  then show "migrateTargets s = (AList.update ''target'' (Obj (targets_obj r)) s, None)"
    by (rule migrateTargets_obj)
next
  fix s :: "'a obj" and v assume "map_of s ''target'' = Some v" "\<forall>r. v \<noteq> Obj r"
  then show "migrateTargets s = (s, None)"
    by (cases v) (simp_all add: migrateTargets_def stmt_defs lookup_def)
qed

lemma uses_value_obj:
  "map_of s ''uses'' = Some (Obj r) \<Longrightarrow>
   uses_value h s = (AList.update ''uses'' (Obj (coerce_field h ''value'' r)) s, None)"
  by (auto simp add: uses_value_def coerce_field_def stmt_defs lookup_def update_triv typeof_def
       split: jsval.splits)

lemma uses_recovery_obj:
  "map_of s ''uses'' = Some (Obj r) \<Longrightarrow>
   uses_recovery s =
     (AList.update ''uses'' (Obj (default_field ''recovery'' Undefined (Str '''') r)) s, None)"
  by (auto simp add: uses_recovery_def default_field_def stmt_defs lookup_def update_triv)

lemma migrateUses_obj:
  assumes "map_of s ''uses'' = Some (Obj r)"
  shows "migrateUses h s = (AList.update ''uses'' (Obj (uses_obj h r)) s, None)"
proof -
  let ?r1 = "coerce_field h ''value'' r"
  let ?s1 = "AList.update ''uses'' (Obj ?r1) s"
  have 1: "uses_value h s = (?s1, None)" by (rule uses_value_obj [OF assms])
  have "map_of ?s1 ''uses'' = Some (Obj ?r1)" by (simp add: update_conv')
  then have 2: "uses_recovery ?s1 =
      (AList.update ''uses'' (Obj (default_field ''recovery'' Undefined (Str '''') ?r1)) ?s1, None)"
    by (rule uses_recovery_obj)
  from assms have "has_key s ''uses''" by (simp add: has_key_map_of)
  with 1 2 show ?thesis by (simp add: migrateUses_def seq_def uses_obj_def)
qed

lemma migrateUses_acts: "acts_on ''uses'' (uses_obj h) (\<lambda>_. Some TypeError) (migrateUses h)"
proof (rule acts_onI)
  fix s :: "'a obj" assume "map_of s ''uses'' = None"
  then show "migrateUses h s = (s, None)" by (simp add: migrateUses_def has_key_map_of)
next
  fix s :: "'a obj" and r assume "map_of s ''uses'' = Some (Obj r)"
  then show "migrateUses h s = (AList.update ''uses'' (Obj (uses_obj h r)) s, None)"
    by (rule migrateUses_obj)
next
  fix s :: "'a obj" and v assume "map_of s ''uses'' = Some v" "\<forall>r. v \<noteq> Obj r"
  then show "migrateUses h s = (s, Some TypeError)"
    by (cases v)
       (simp_all add: migrateUses_def uses_value_def uses_recovery_def stmt_defs lookup_def
          has_key_map_of typeof_def)
qed

lemma consume_type_obj:
  "map_of s ''consume'' = Some (Obj r) \<Longrightarrow>
   consume_type s =
     (AList.update ''consume'' (Obj (default_field ''type'' Null (Str '''') r)) s, None)"
  by (auto simp add: consume_type_def default_field_def stmt_defs lookup_def update_triv)

lemma consume_amount_obj:
  "map_of s ''consume'' = Some (Obj r) \<Longrightarrow>
   consume_amount h s = (AList.update ''consume'' (Obj (coerce_field h ''amount'' r)) s, None)"
  by (auto simp add: consume_amount_def coerce_field_def stmt_defs lookup_def update_triv
        typeof_def split: jsval.splits)

lemma migrateConsume_obj:
  assumes "map_of s ''consume'' = Some (Obj r)"
  shows "migrateConsume h s = (AList.update ''consume'' (Obj (consume_obj h r)) s, None)"
proof -
  let ?r1 = "default_field ''type'' Null (Str '''') r"
  let ?s1 = "AList.update ''consume'' (Obj ?r1) s"
  have 1: "consume_type s = (?s1, None)" by (rule consume_type_obj [OF assms])
  have "map_of ?s1 ''consume'' = Some (Obj ?r1)" by (simp add: update_conv')
  then have 2: "consume_amount h ?s1 =
      (AList.update ''consume'' (Obj (coerce_field h ''amount'' ?r1)) ?s1, None)"
    by (rule consume_amount_obj)
  from assms have "has_key s ''consume''" by (simp add: has_key_map_of)
  with 1 2 show ?thesis by (simp add: migrateConsume_def seq_def consume_obj_def)
qed

lemma migrateConsume_acts:
  "acts_on ''consume'' (consume_obj h) (\<lambda>v. if nullish v then Some TypeError else None)
     (migrateConsume h)"
proof (rule acts_onI)
  fix s :: "'a obj" assume "map_of s ''consume'' = None"
  then show "migrateConsume h s = (s, None)" by (simp add: migrateConsume_def has_key_map_of)
next
  fix s :: "'a obj" and r assume "map_of s ''consume'' = Some (Obj r)"
  then show "migrateConsume h s = (AList.update ''consume'' (Obj (consume_obj h r)) s, None)"
    by (rule migrateConsume_obj)
next
  fix s :: "'a obj" and v assume "map_of s ''consume'' = Some v" "\<forall>r. v \<noteq> Obj r"
  then show "migrateConsume h s = (s, if nullish v then Some TypeError else None)"
    by (cases v)
       (simp_all add: migrateConsume_def consume_type_def consume_amount_def stmt_defs
          lookup_def has_key_map_of typeof_def nullish_def)
qed

subsection \<open>The normal forms are fixed points\<close>

lemma default_field_idem:
  "x \<noteq> d \<Longrightarrow> default_field k x d (default_field k x d r) = default_field k x d r"
  by (simp add: default_field_def lookup_update)

lemma coerce_field_idem: "coerce_field h k (coerce_field h k r) = coerce_field h k r"
  by (auto simp add: coerce_field_def lookup_update split: jsval.splits)

lemma formula_obj_idem:
  "\<forall>n. numToString h n = ''0'' \<longrightarrow> isZero h n \<Longrightarrow>
   formula_obj h k (formula_obj h k r) = formula_obj h k r"
  by (auto simp add: formula_obj_def zero_or_null_def lookup_update split: jsval.splits)

lemma uses_obj_idem: "uses_obj h (uses_obj h r) = uses_obj h r"
  by (auto simp add: uses_obj_def default_field_def coerce_field_def lookup_update
        split: jsval.splits)

lemma consume_obj_idem: "consume_obj h (consume_obj h r) = consume_obj h r"
  by (auto simp add: consume_obj_def default_field_def coerce_field_def lookup_update
        split: jsval.splits)

lemma targets_obj_idem: "targets_obj (targets_obj r) = targets_obj r"
  by (auto simp add: targets_obj_def default_field_def lookup_update)

lemma set_numeric_lookup:
  "lookup (set_numeric h k x r) k' =
     (if k' = k \<and> isNumeric h x then Num (toNumber h x) else lookup r k')"
  by (simp add: set_numeric_def lookup_update)

lemma range_value_obj_idem: "range_value_obj h (range_value_obj h r) = range_value_obj h r"
proof (cases "lookup r ''value''")
  case (Str str)
  show ?thesis
  proof (cases "str = ''''")
    case True
    with Str show ?thesis by (simp add: range_value_obj_def lookup_update)
  next
    case False
    show ?thesis
    proof (cases "isNumeric h (split_value str :: 'a jsval)")
      case True
      with Str False show ?thesis
        by (simp add: range_value_obj_def set_numeric_lookup)
    next
      case False
      with Str \<open>str \<noteq> ''''\<close> show ?thesis
        by (simp add: range_value_obj_def set_numeric_lookup) (simp add: set_numeric_def)
    qed
  qed
qed (simp_all add: range_value_obj_def)

lemma range_value_obj_units: "lookup (range_value_obj h r) ''units'' = lookup r ''units''"
  by (simp add: range_value_obj_def set_numeric_lookup lookup_update split: jsval.splits)

lemma coerce_field_lookup_other: "k' \<noteq> k \<Longrightarrow> lookup (coerce_field h k r) k' = lookup r k'"
  by (simp add: coerce_field_def lookup_update split: jsval.splits)

lemma default_field_lookup_other: "k' \<noteq> k \<Longrightarrow> lookup (default_field k x d r) k' = lookup r k'"
  by (simp add: default_field_def lookup_update)

lemma default_field_fix: "lookup r k \<noteq> x \<Longrightarrow> default_field k x d r = r"
  by (simp add: default_field_def)

lemma default_field_result: "x \<noteq> d \<Longrightarrow> lookup (default_field k x d r) k \<noteq> x"
  by (simp add: default_field_def lookup_update)

lemma coerce_field_fix:
  "\<forall>str. lookup r k = Str str \<longrightarrow> str \<noteq> '''' \<and> \<not> isNumeric h (Str str) \<Longrightarrow>
   coerce_field h k r = r"
  by (simp add: coerce_field_def split: jsval.splits)

lemma coerce_field_result:
  "lookup (coerce_field h k r) k = Str str \<Longrightarrow> str \<noteq> '''' \<and> \<not> isNumeric h (Str str)"
  by (auto simp add: coerce_field_def lookup_update split: jsval.splits if_splits)

lemma range_value_obj_long:
  "lookup (range_value_obj h r) ''long'' = Str str \<Longrightarrow> lookup r ''long'' = Str str"
  by (auto simp add: range_value_obj_def set_numeric_lookup lookup_update
        split: jsval.splits if_splits)

lemma ranges_obj_idem: "ranges_obj h (ranges_obj h r) = ranges_obj h r"
proof -
  let ?r1 = "default_field ''units'' Null (Str '''') r"
  let ?r2 = "coerce_field h ''long'' ?r1"
  let ?r3 = "range_value_obj h ?r2"
  have u: "lookup ?r3 ''units'' \<noteq> Null"
    using default_field_result [of Null "Str ''''" "''units''" r]
    by (simp add: range_value_obj_units coerce_field_lookup_other)
  have 1: "default_field ''units'' Null (Str '''') ?r3 = ?r3"
    by (rule default_field_fix [OF u])
  have 2: "coerce_field h ''long'' ?r3 = ?r3"
  proof (rule coerce_field_fix, intro allI impI)
    fix str assume "lookup ?r3 ''long'' = Str str"
    then have "lookup ?r2 ''long'' = Str str" by (rule range_value_obj_long)
    then show "str \<noteq> '''' \<and> \<not> isNumeric h (Str str)" by (rule coerce_field_result)
  qed
  show ?thesis
    unfolding ranges_obj_def [of h r]
    unfolding ranges_obj_def [of h ?r3]
    by (simp only: 1 2 range_value_obj_idem)
qed

section \<open>Sequences of statements\<close>

lemma seq_fst: "fst (seq f g s) = (if snd (f s) = None then fst (g (fst (f s))) else fst (f s))"
  by (cases "f s") (auto simp add: seq_def split: option.splits)

lemma seq_ok: "(snd (seq f g s) = None) = (snd (f s) = None \<and> snd (g (fst (f s))) = None)"
  by (cases "f s") (auto simp add: seq_def split: option.splits)

lemma seq_assoc: "seq (seq f g) k = seq f (seq g k)"
  by (rule ext) (simp add: seq_def split: prod.splits option.splits)

lemma seq_stable: "f s = (s, None) \<Longrightarrow> g s = (s, None) \<Longrightarrow> seq f g s = (s, None)"
  by (simp add: seq_def)

lemma keeps_seq: "keeps Q f \<Longrightarrow> keeps Q g \<Longrightarrow> keeps Q (seq f g)"
  by (simp add: keeps_def seq_fst)

lemma keepsD: "keeps Q f \<Longrightarrow> Q (fst (f s)) = Q s"
  by (simp add: keeps_def)

lemma survives_seq: "survives f g \<Longrightarrow> survives f k \<Longrightarrow> survives f (seq g k)"
  unfolding survives_def
proof (intro allI impI)
  fix s :: "'a obj"
  assume g: "\<forall>s. f s = (s, None) \<longrightarrow> f (fst (g s)) = (fst (g s), None)"
    and k: "\<forall>s. f s = (s, None) \<longrightarrow> f (fst (k s)) = (fst (k s), None)"
    and st: "f s = (s, None)"
  from g st have 1: "f (fst (g s)) = (fst (g s), None)" by blast
  with k have 2: "f (fst (k (fst (g s)))) = (fst (k (fst (g s))), None)" by blast
  show "f (fst (seq g k s)) = (fst (seq g k s), None)"
    using 1 2 by (simp add: seq_fst)
qed

lemma settles_seq:
  assumes f: "settles f" and g: "settles g" and r: "survives f g"
  shows "settles (seq f g)"
  unfolding settles_def
proof (intro allI impI)
  fix s :: "'a obj"
  assume "snd (seq f g s) = None"
  then have ok1: "snd (f s) = None" and ok2: "snd (g (fst (f s))) = None"
    by (simp_all add: seq_ok)
  let ?s1 = "fst (f s)"
  let ?s2 = "fst (g ?s1)"
  from ok1 have e: "fst (seq f g s) = ?s2" by (simp add: seq_fst)
  from f ok1 have "f ?s1 = (?s1, None)" by (simp add: settles_def)
  with r have "f ?s2 = (?s2, None)" by (simp add: survives_def)
  moreover from g ok2 have "g ?s2 = (?s2, None)" by (simp add: settles_def)
  ultimately show "seq f g (fst (seq f g s)) = (fst (seq f g s), None)"
    unfolding e by (rule seq_stable)
qed

lemma acts_on_settles: "acts_on k F E f \<Longrightarrow> (\<And>r. F (F r) = F r) \<Longrightarrow> settles f"
  unfolding settles_def
proof (intro allI impI)
  fix s :: "'a obj"
  assume a: "acts_on k F E f" "\<And>r. F (F r) = F r" "snd (f s) = None"
  have "f (fst (f s)) = f s" by (rule acts_on_idem [OF a(1) a(2)])
  with a(3) show "f (fst (f s)) = (fst (f s), None)" by (metis prod.collapse)
qed

lemma acts_on_survives:
  "acts_on k F E f \<Longrightarrow> acts_on k' F' E' g \<Longrightarrow> k \<noteq> k' \<Longrightarrow> survives f g"
  unfolding survives_def by (blast intro: acts_on_after)

lemma acts_on_keeps_other:
  "acts_on k F E f \<Longrightarrow> k1 \<noteq> k \<Longrightarrow> keeps (\<lambda>s. lookup s k1) f"
  by (simp add: keeps_def lookup_def acts_on_map_of_other)

lemma acts_on_keeps_field:
  assumes "acts_on k F E f" "\<And>r. lookup (F r) k2 = lookup r k2"
  shows "keeps (\<lambda>s. getq (lookup s k1) k2) f"
  unfolding keeps_def
proof
  fix s :: "'a obj"
  from acts_on_result [OF assms(1), of s]
  show "getq (lookup (fst (f s)) k1) k2 = getq (lookup s k1) k2"
    by (auto simp add: lookup_update getq_def assms(2)) (simp add: lookup_def)
qed

lemma acts_on_keeps_field_other:
  "acts_on k F E f \<Longrightarrow> k1 \<noteq> k \<Longrightarrow> keeps (\<lambda>s. getq (lookup s k1) k2) f"
  by (simp add: keeps_def lookup_def acts_on_map_of_other)

lemma acts_on_keeps_filter:
  "acts_on k F E f \<Longrightarrow> k \<in> K \<Longrightarrow> keeps (filter (\<lambda>p. fst p \<notin> K)) f"
  by (simp add: keeps_def acts_on_filter)

lemma acts_on_keeps_keys: "acts_on k F E f \<Longrightarrow> keeps (map fst) f"
  by (simp add: keeps_def acts_on_keys)

lemma acts_on_total: "acts_on k F (\<lambda>_. None) f \<Longrightarrow> snd (f s) = None"
  unfolding acts_on_def by (erule allE [of _ s]) (simp split: option.splits jsval.splits)

subsection \<open>The five migrations in sequence\<close>

lemma migrateData_steps:
  "migrateData h =
     seq (formula_field h ''uses'' ''max'')
    (seq (formula_field h ''duration'' ''value'')
    (seq (migrateRanges h)
    (seq migrateTargets
    (seq (migrateUses h) (migrateConsume h)))))"
  by (simp add: migrateData_def migrateFormulaFields_def seq_assoc)

lemma formula_obj_fix_iff:
  "(formula_obj h k r = r) =
   (\<not> zero_or_null h (lookup r k) \<and> (\<forall>n. lookup r k \<noteq> Num n))"
proof -
  have a: "\<And>x. AList.update k x r = r \<Longrightarrow> lookup r k = x"
  proof -
    fix x assume "AList.update k x r = r"
    then have "lookup (AList.update k x r) k = lookup r k" by simp
    then show "lookup r k = x" by (simp add: lookup_update)
  qed
  show ?thesis
    by (auto simp add: formula_obj_def zero_or_null_def split: jsval.splits dest!: a)
qed

lemma uses_obj_lookup_max: "lookup (uses_obj h r) ''max'' = lookup r ''max''"
  by (simp add: uses_obj_def default_field_lookup_other coerce_field_lookup_other)

lemma formula_survives_uses:
  "survives (formula_field h ''uses'' ''max'') (migrateUses h)"
  unfolding survives_def
proof (intro allI impI)
  fix s :: "'a obj"
  assume st: "formula_field h ''uses'' ''max'' s = (s, None)"
  show "formula_field h ''uses'' ''max'' (fst (migrateUses h s)) = (fst (migrateUses h s), None)"
  proof (cases "\<exists>r. map_of s ''uses'' = Some (Obj r)")
    case True
    then obtain r where r: "map_of s ''uses'' = Some (Obj r)" by blast
    from st r have "formula_obj h ''max'' r = r"
      by (simp add: acts_on_stable [OF formula_field_acts])
    then have "formula_obj h ''max'' (uses_obj h r) = uses_obj h r"
      by (simp add: formula_obj_fix_iff uses_obj_lookup_max)
    then show ?thesis
      by (simp add: migrateUses_obj [OF r] acts_on_stable [OF formula_field_acts] update_conv')
  next
    case False
    have "fst (migrateUses h s) = s"
    proof (cases "map_of s ''uses''")
      case None
      then show ?thesis by (simp add: acts_on_absent [OF migrateUses_acts])
    next
      case (Some v)
      with False have "\<forall>r. v \<noteq> Obj r" by simp
      from acts_on_other [OF migrateUses_acts Some this] show ?thesis by simp
    qed
    with st show ?thesis by simp
  qed
qed

lemma migrateData_settles:
  assumes z: "\<forall>n. numToString h n = ''0'' \<longrightarrow> isZero h n"
  shows "settles (migrateData h)"
proof -
  note ff = formula_field_acts
  have s1: "settles (formula_field h ''uses'' ''max'')"
    and s2: "settles (formula_field h ''duration'' ''value'')"
    by (rule acts_on_settles [OF ff], rule formula_obj_idem [OF z])+
  have s3: "settles (migrateRanges h)"
    by (rule acts_on_settles [OF migrateRanges_acts]) (rule ranges_obj_idem)
  have s4: "settles migrateTargets"
    by (rule acts_on_settles [OF migrateTargets_acts]) (rule targets_obj_idem)
  have s5: "settles (migrateUses h)"
    by (rule acts_on_settles [OF migrateUses_acts]) (rule uses_obj_idem)
  have s6: "settles (migrateConsume h)"
    by (rule acts_on_settles [OF migrateConsume_acts]) (rule consume_obj_idem)
  have t5: "settles (seq (migrateUses h) (migrateConsume h))"
    by (rule settles_seq [OF s5 s6])
       (rule acts_on_survives [OF migrateUses_acts migrateConsume_acts], simp)
  have t4: "settles (seq migrateTargets (seq (migrateUses h) (migrateConsume h)))"
    by (rule settles_seq [OF s4 t5], intro survives_seq)
       (rule acts_on_survives [OF migrateTargets_acts migrateUses_acts], simp,
        rule acts_on_survives [OF migrateTargets_acts migrateConsume_acts], simp)
  have t3: "settles (seq (migrateRanges h)
      (seq migrateTargets (seq (migrateUses h) (migrateConsume h))))"
    by (rule settles_seq [OF s3 t4], intro survives_seq)
       (rule acts_on_survives [OF migrateRanges_acts migrateTargets_acts], simp,
        rule acts_on_survives [OF migrateRanges_acts migrateUses_acts], simp,
        rule acts_on_survives [OF migrateRanges_acts migrateConsume_acts], simp)
  have t2: "settles (seq (formula_field h ''duration'' ''value'') (seq (migrateRanges h)
      (seq migrateTargets (seq (migrateUses h) (migrateConsume h)))))"
    by (rule settles_seq [OF s2 t3], intro survives_seq)
       (rule acts_on_survives [OF ff migrateRanges_acts], simp,
        rule acts_on_survives [OF ff migrateTargets_acts], simp,
        rule acts_on_survives [OF ff migrateUses_acts], simp,
        rule acts_on_survives [OF ff migrateConsume_acts], simp)
  have t1: "settles (seq (formula_field h ''uses'' ''max'')
      (seq (formula_field h ''duration'' ''value'') (seq (migrateRanges h)
      (seq migrateTargets (seq (migrateUses h) (migrateConsume h))))))"
    by (rule settles_seq [OF s1 t2], intro survives_seq)
       (rule acts_on_survives [OF ff ff], simp,
        rule acts_on_survives [OF ff migrateRanges_acts], simp,
        rule acts_on_survives [OF ff migrateTargets_acts], simp,
        rule formula_survives_uses,
        rule acts_on_survives [OF ff migrateConsume_acts], simp)
  then show ?thesis by (simp only: migrateData_steps)
qed

lemma migrateFormulaFields_settles:
  assumes z: "\<forall>n. numToString h n = ''0'' \<longrightarrow> isZero h n"
  shows "settles (migrateFormulaFields h)"
  unfolding migrateFormulaFields_def
  by (rule settles_seq)
     (rule acts_on_settles [OF formula_field_acts], rule formula_obj_idem [OF z],
      rule acts_on_settles [OF formula_field_acts], rule formula_obj_idem [OF z],
      rule acts_on_survives [OF formula_field_acts formula_field_acts], simp)

section \<open>The item template: what is written and what is kept\<close>

subsection \<open>What the later migrations keep\<close>

lemma formula_obj_lookup_other: "k' \<noteq> k \<Longrightarrow> lookup (formula_obj h k r) k' = lookup r k'"
  by (simp add: formula_obj_def lookup_update split: jsval.splits)

lemma targets_obj_lookup_other:
  "k' \<notin> {''value'', ''units'', ''type''} \<Longrightarrow> lookup (targets_obj r) k' = lookup r k'"
  by (simp add: targets_obj_def default_field_lookup_other)

lemma uses_obj_lookup_other:
  "k' \<notin> {''value'', ''recovery''} \<Longrightarrow> lookup (uses_obj h r) k' = lookup r k'"
  by (simp add: uses_obj_def default_field_lookup_other coerce_field_lookup_other)

lemma consume_obj_lookup_other:
  "k' \<notin> {''type'', ''amount''} \<Longrightarrow> lookup (consume_obj h r) k' = lookup r k'"
  by (simp add: consume_obj_def default_field_lookup_other coerce_field_lookup_other)

lemma tail_keeps_other:
  assumes "k1 \<noteq> ''uses''" "k1 \<noteq> ''consume''" "k1 \<noteq> ''target''"
  shows "keeps (\<lambda>s. field_of s k1 k2) (seq migrateTargets (seq (migrateUses h) (migrateConsume h)))"
  using assms
  by (intro keeps_seq acts_on_keeps_field_other [OF migrateTargets_acts]
        acts_on_keeps_field_other [OF migrateUses_acts]
        acts_on_keeps_field_other [OF migrateConsume_acts]) simp_all

subsection \<open>Formula fields\<close>

lemma formula_field_result:
  "field_of (fst (formula_field h k1 k2 s)) k1 k2 =
     (if zero_or_null h (field_of s k1 k2) then Str ''''
      else (case field_of s k1 k2 of Num n \<Rightarrow> Str (numToString h n) | x \<Rightarrow> x))"
proof (cases "\<exists>r. map_of s k1 = Some (Obj r)")
  case True
  then obtain r where r: "map_of s k1 = Some (Obj r)" by blast
  then have l: "lookup s k1 = Obj r" by (simp add: lookup_def)
  show ?thesis
    by (simp add: formula_field_obj [OF r] l lookup_update getq_def formula_obj_def
          split: jsval.splits)
next
  case False
  have "formula_field h k1 k2 s = (s, None)"
  proof (cases "map_of s k1")
    case None
    then show ?thesis by (rule acts_on_absent [OF formula_field_acts])
  next
    case (Some v)
    with False have "\<forall>r. v \<noteq> Obj r" by simp
    from acts_on_other [OF formula_field_acts Some this] show ?thesis .
  qed
  moreover have "field_of s k1 k2 = Undefined"
    using False by (cases "map_of s k1"; cases "the (map_of s k1)") (auto simp: lookup_def getq_def)
  ultimately show ?thesis by (simp add: zero_or_null_def)
qed

lemma migrateData_uses_max:
  "field_of (fst (migrateData h s)) ''uses'' ''max'' =
   field_of (fst (formula_field h ''uses'' ''max'' s)) ''uses'' ''max''"
proof -
  let ?tail = "seq (formula_field h ''duration'' ''value'') (seq (migrateRanges h)
      (seq migrateTargets (seq (migrateUses h) (migrateConsume h))))"
  have k: "keeps (\<lambda>s. field_of s ''uses'' ''max'') ?tail"
    by (intro keeps_seq acts_on_keeps_field_other [OF formula_field_acts]
          acts_on_keeps_field_other [OF migrateRanges_acts]
          acts_on_keeps_field_other [OF migrateTargets_acts]
          acts_on_keeps_field_other [OF migrateConsume_acts]
          acts_on_keeps_field [OF migrateUses_acts] uses_obj_lookup_other) simp_all
  have "fst (migrateData h s) = fst (?tail (fst (formula_field h ''uses'' ''max'' s)))"
    by (simp add: migrateData_steps seq_fst acts_on_total [OF formula_field_acts])
  then show ?thesis using keepsD [OF k] by simp
qed

lemma migrateData_duration_value:
  "field_of (fst (migrateData h s)) ''duration'' ''value'' =
   field_of (fst (formula_field h ''duration'' ''value'' s)) ''duration'' ''value''"
proof -
  let ?tail = "seq (migrateRanges h)
      (seq migrateTargets (seq (migrateUses h) (migrateConsume h)))"
  let ?s1 = "fst (formula_field h ''uses'' ''max'' s)"
  have k: "keeps (\<lambda>s. field_of s ''duration'' ''value'') ?tail"
    by (intro keeps_seq
          acts_on_keeps_field_other [OF migrateRanges_acts]
          acts_on_keeps_field_other [OF migrateTargets_acts]
          acts_on_keeps_field_other [OF migrateConsume_acts]
          acts_on_keeps_field_other [OF migrateUses_acts]) simp_all
  have k1: "keeps (\<lambda>s. field_of s ''duration'' ''value'') (formula_field h ''uses'' ''max'')"
    by (rule acts_on_keeps_field_other [OF formula_field_acts]) simp
  have "fst (migrateData h s) = fst (?tail (fst (formula_field h ''duration'' ''value'' ?s1)))"
    by (simp add: migrateData_steps seq_fst acts_on_total [OF formula_field_acts])
  then have "field_of (fst (migrateData h s)) ''duration'' ''value'' =
      field_of (fst (formula_field h ''duration'' ''value'' ?s1)) ''duration'' ''value''"
    using keepsD [OF k] by simp
  also have "\<dots> = field_of (fst (formula_field h ''duration'' ''value'' s)) ''duration'' ''value''"
    using keepsD [OF k1, of s] by (simp only: formula_field_result)
  finally show ?thesis .
qed

text \<open>
  C4. After \<^verbatim>\<open>ActivatedEffectTemplate.migrateData\<close>, whether or not a later sub-migration
  throws, a \<^verbatim>\<open>uses.max\<close> or \<^verbatim>\<open>duration.value\<close> that was \<^verbatim>\<open>0\<close>, \<^verbatim>\<open>"0"\<close> or \<^verbatim>\<open>null\<close> is the
  empty string, one that was any other number is that number's \<^verbatim>\<open>toString()\<close>, and
  neither field is a number.
\<close>

theorem formula_fields_canonical:
  "(zero_or_null h (field_of s ''uses'' ''max'') \<longrightarrow>
      field_of (fst (migrateData h s)) ''uses'' ''max'' = Str '''')
   \<and> (\<forall>n. field_of s ''uses'' ''max'' = Num n \<and> \<not> isZero h n \<longrightarrow>
      field_of (fst (migrateData h s)) ''uses'' ''max'' = Str (numToString h n))
   \<and> (\<forall>n. field_of (fst (migrateData h s)) ''uses'' ''max'' \<noteq> Num n)
   \<and> (zero_or_null h (field_of s ''duration'' ''value'') \<longrightarrow>
      field_of (fst (migrateData h s)) ''duration'' ''value'' = Str '''')
   \<and> (\<forall>n. field_of s ''duration'' ''value'' = Num n \<and> \<not> isZero h n \<longrightarrow>
      field_of (fst (migrateData h s)) ''duration'' ''value'' = Str (numToString h n))
   \<and> (\<forall>n. field_of (fst (migrateData h s)) ''duration'' ''value'' \<noteq> Num n)"
  by (auto simp add: migrateData_uses_max migrateData_duration_value formula_field_result
        zero_or_null_def split: jsval.splits)

theorem formula_fields_canonical_witness:
  "zero_or_null int_host (field_of sample_item ''uses'' ''max'')
   \<and> field_of (fst (migrateData int_host sample_item)) ''uses'' ''max'' = Str ''''
   \<and> field_of sample_item ''duration'' ''value'' = Num 10
   \<and> \<not> isZero int_host 10
   \<and> numToString int_host 10 = ''10''
   \<and> field_of (fst (migrateData int_host sample_item)) ''duration'' ''value'' = Str ''10''"
proof -
  have 1: "zero_or_null int_host (field_of sample_item ''uses'' ''max'')" by code_simp
  have 2: "field_of sample_item ''duration'' ''value'' = Num 10" by code_simp
  have 3: "\<not> isZero int_host 10" by code_simp
  have 4: "numToString int_host 10 = ''10''" by code_simp
  from formula_fields_canonical [of int_host sample_item] 1 2 3
  have "field_of (fst (migrateData int_host sample_item)) ''uses'' ''max'' = Str ''''"
    and "field_of (fst (migrateData int_host sample_item)) ''duration'' ''value''
         = Str (numToString int_host 10)"
    by blast+
  with 1 2 3 4 show ?thesis by simp
qed

subsection \<open>Frame\<close>

text \<open>
  C9. \<^verbatim>\<open>ActivatedEffectTemplate.migrateData\<close> writes only under \<^verbatim>\<open>duration\<close>, \<^verbatim>\<open>range\<close>,
  \<^verbatim>\<open>target\<close>, \<^verbatim>\<open>uses\<close> and \<^verbatim>\<open>consume\<close>: the other properties of the source are the same
  afterwards, in the same order and with the same values, no property is added or removed,
  and \<^verbatim>\<open>activation\<close> in particular is unchanged. This holds whether it completes or
  throws.
\<close>

theorem migrateData_frame:
  "filter (\<lambda>p. fst p \<notin> set own_fields) (fst (migrateData h s))
     = filter (\<lambda>p. fst p \<notin> set own_fields) s
   \<and> map fst (fst (migrateData h s)) = map fst s
   \<and> lookup (fst (migrateData h s)) ''activation'' = lookup s ''activation''"
proof -
  have 1: "keeps (filter (\<lambda>p. fst p \<notin> set own_fields)) (migrateData h)"
    unfolding migrateData_steps
    by (intro keeps_seq acts_on_keeps_filter [OF formula_field_acts]
          acts_on_keeps_filter [OF migrateRanges_acts]
          acts_on_keeps_filter [OF migrateTargets_acts]
          acts_on_keeps_filter [OF migrateUses_acts]
          acts_on_keeps_filter [OF migrateConsume_acts]) (simp_all add: own_fields_def)
  have 2: "keeps (map fst) (migrateData h)"
    unfolding migrateData_steps
    by (intro keeps_seq acts_on_keeps_keys [OF formula_field_acts]
          acts_on_keeps_keys [OF migrateRanges_acts]
          acts_on_keeps_keys [OF migrateTargets_acts]
          acts_on_keeps_keys [OF migrateUses_acts]
          acts_on_keeps_keys [OF migrateConsume_acts])
  have 3: "keeps (\<lambda>s. lookup s ''activation'') (migrateData h)"
    unfolding migrateData_steps
    by (intro keeps_seq acts_on_keeps_other [OF formula_field_acts]
          acts_on_keeps_other [OF migrateRanges_acts]
          acts_on_keeps_other [OF migrateTargets_acts]
          acts_on_keeps_other [OF migrateUses_acts]
          acts_on_keeps_other [OF migrateConsume_acts]) simp_all
  from keepsD [OF 1] keepsD [OF 2] keepsD [OF 3] show ?thesis by simp
qed

subsection \<open>Ranges\<close>

lemma split_on_nosep: "c \<notin> set a \<Longrightarrow> split_on c a = [a]"
  by (induction a) auto

lemma split_on_append: "c \<notin> set a \<Longrightarrow> split_on c (a @ c # rest) = a # split_on c rest"
  by (induction a) auto

lemma split_two:
  assumes "CHR ''/'' \<notin> set a" "CHR ''/'' \<notin> set b"
  shows "split_value (a @ CHR ''/'' # b) = Str a" "split_long (a @ CHR ''/'' # b) = Str b"
  using assms by (simp_all add: split_value_def split_long_def split_on_append split_on_nosep)

lemma ranges_obj_units:
  "lookup (ranges_obj h r) ''units'' =
     (if lookup r ''units'' = Null then Str '''' else lookup r ''units'')"
  by (simp add: ranges_obj_def range_value_obj_units coerce_field_lookup_other
        default_field_def lookup_update)

lemma ranges_obj_blank:
  "lookup r ''value'' = Str '''' \<Longrightarrow> lookup (ranges_obj h r) ''value'' = Null"
  by (simp add: ranges_obj_def range_value_obj_def coerce_field_lookup_other
        default_field_lookup_other lookup_update)

lemma ranges_obj_split:
  assumes "lookup r ''value'' = Str (a @ ''/'' @ b)"
    and "CHR ''/'' \<notin> set a" "CHR ''/'' \<notin> set b"
    and "isNumeric h (Str a)" "isNumeric h (Str b)"
  shows "lookup (ranges_obj h r) ''value'' = Num (toNumber h (Str a))"
    and "lookup (ranges_obj h r) ''long'' = Num (toNumber h (Str b))"
  using assms
  by (simp_all add: ranges_obj_def range_value_obj_def coerce_field_lookup_other
        default_field_lookup_other set_numeric_lookup split_two)

lemma field_of_obj: "field_of s k1 k2 = Str x \<Longrightarrow> \<exists>r. map_of s k1 = Some (Obj r)"
  by (cases "map_of s k1"; cases "the (map_of s k1)") (auto simp add: getq_def lookup_def)

lemma field_of_null: "field_of s k1 k2 = Null \<Longrightarrow> \<exists>r. map_of s k1 = Some (Obj r)"
  by (cases "map_of s k1"; cases "the (map_of s k1)") (auto simp add: getq_def lookup_def)

lemma acts_on_field:
  "acts_on k F E f \<Longrightarrow> map_of s k = Some (Obj r) \<Longrightarrow>
   field_of (fst (f s)) k k2 = lookup (F r) k2"
  by (simp add: acts_on_obj lookup_update getq_def)

lemma migrateData_range:
  assumes "map_of s ''range'' = Some (Obj r)"
  shows "field_of (fst (migrateData h s)) ''range'' k2 = lookup (ranges_obj h r) k2"
proof -
  let ?tail = "seq migrateTargets (seq (migrateUses h) (migrateConsume h))"
  let ?s1 = "fst (formula_field h ''uses'' ''max'' s)"
  let ?s2 = "fst (formula_field h ''duration'' ''value'' ?s1)"
  have m: "map_of ?s2 ''range'' = Some (Obj r)"
    using assms by (simp add: acts_on_map_of_other [OF formula_field_acts])
  have k: "keeps (\<lambda>s. field_of s ''range'' k2) ?tail"
    by (rule tail_keeps_other) simp_all
  have "fst (migrateData h s) = fst (?tail (fst (migrateRanges h ?s2)))"
    by (simp add: migrateData_steps seq_fst acts_on_total [OF formula_field_acts]
          migrateRanges_obj [OF m])
  then have "field_of (fst (migrateData h s)) ''range'' k2 =
      field_of (fst (migrateRanges h ?s2)) ''range'' k2"
    using keepsD [OF k] by simp
  then show ?thesis by (simp add: acts_on_field [OF migrateRanges_acts m])
qed

text \<open>
  C5. After \<^verbatim>\<open>ActivatedEffectTemplate.migrateData\<close>, whether or not a later sub-migration
  throws: a \<^verbatim>\<open>range.value\<close> string \<^verbatim>\<open>"A/B"\<close> with \<open>A\<close> and \<open>B\<close> numeric (and, as numeric
  strings are, free of \<^verbatim>\<open>/\<close>) has become the number \<open>A\<close> in \<^verbatim>\<open>range.value\<close> and the number
  \<open>B\<close> in \<^verbatim>\<open>range.long\<close>; an empty \<^verbatim>\<open>range.value\<close> string has become \<^verbatim>\<open>null\<close>; a \<^verbatim>\<open>null\<close>
  \<^verbatim>\<open>range.units\<close> has become the empty string.
\<close>

theorem range_split:
  "(\<forall>a b. field_of s ''range'' ''value'' = Str (a @ ''/'' @ b)
        \<and> CHR ''/'' \<notin> set a \<and> CHR ''/'' \<notin> set b
        \<and> isNumeric h (Str a) \<and> isNumeric h (Str b) \<longrightarrow>
      field_of (fst (migrateData h s)) ''range'' ''value'' = Num (toNumber h (Str a))
      \<and> field_of (fst (migrateData h s)) ''range'' ''long'' = Num (toNumber h (Str b)))
   \<and> (field_of s ''range'' ''value'' = Str '''' \<longrightarrow>
      field_of (fst (migrateData h s)) ''range'' ''value'' = Null)
   \<and> (field_of s ''range'' ''units'' = Null \<longrightarrow>
      field_of (fst (migrateData h s)) ''range'' ''units'' = Str '''')"
proof (intro conjI allI impI)
  fix a b
  assume a: "field_of s ''range'' ''value'' = Str (a @ ''/'' @ b)
        \<and> CHR ''/'' \<notin> set a \<and> CHR ''/'' \<notin> set b
        \<and> isNumeric h (Str a) \<and> isNumeric h (Str b)"
  then obtain r where r: "map_of s ''range'' = Some (Obj r)" by (blast dest: field_of_obj)
  with a have l: "lookup r ''value'' = Str (a @ ''/'' @ b)" by (simp add: getq_def lookup_def)
  from a l show "field_of (fst (migrateData h s)) ''range'' ''value'' = Num (toNumber h (Str a))"
    by (simp add: migrateData_range [OF r] ranges_obj_split)
  from a l show "field_of (fst (migrateData h s)) ''range'' ''long'' = Num (toNumber h (Str b))"
    by (simp add: migrateData_range [OF r] ranges_obj_split)
next
  assume a: "field_of s ''range'' ''value'' = Str ''''"
  then obtain r where r: "map_of s ''range'' = Some (Obj r)" by (blast dest: field_of_obj)
  with a have "lookup r ''value'' = Str ''''" by (simp add: getq_def lookup_def)
  then show "field_of (fst (migrateData h s)) ''range'' ''value'' = Null"
    by (simp add: migrateData_range [OF r] ranges_obj_blank)
next
  assume a: "field_of s ''range'' ''units'' = Null"
  then obtain r where r: "map_of s ''range'' = Some (Obj r)" by (blast dest: field_of_null)
  with a have "lookup r ''units'' = Null" by (simp add: getq_def lookup_def)
  then show "field_of (fst (migrateData h s)) ''range'' ''units'' = Str ''''"
    by (simp add: migrateData_range [OF r] ranges_obj_units)
qed

theorem range_split_witness:
  "field_of sample_item ''range'' ''value'' = Str (''150'' @ ''/'' @ ''600'')
   \<and> CHR ''/'' \<notin> set ''150'' \<and> CHR ''/'' \<notin> set ''600''
   \<and> isNumeric int_host (Str ''150'') \<and> isNumeric int_host (Str ''600'')
   \<and> toNumber int_host (Str ''150'') = 150 \<and> toNumber int_host (Str ''600'') = 600
   \<and> field_of (fst (migrateData int_host sample_item)) ''range'' ''value'' = Num 150
   \<and> field_of (fst (migrateData int_host sample_item)) ''range'' ''long'' = Num 600
   \<and> field_of sample_item ''range'' ''units'' = Null
   \<and> field_of (fst (migrateData int_host sample_item)) ''range'' ''units'' = Str ''''
   \<and> field_of sample_spent ''range'' ''value'' = Str ''''
   \<and> field_of (fst (migrateData int_host sample_spent)) ''range'' ''value'' = Null"
proof -
  have 1: "field_of sample_item ''range'' ''value'' = Str (''150'' @ ''/'' @ ''600'')"
    by code_simp
  have 2: "CHR ''/'' \<notin> set ''150''" "CHR ''/'' \<notin> set ''600''" by simp_all
  have 3: "isNumeric int_host (Str ''150'')" "isNumeric int_host (Str ''600'')"
    by code_simp+
  have 4: "toNumber int_host (Str ''150'') = 150" "toNumber int_host (Str ''600'') = 600"
    by code_simp+
  have 5: "field_of sample_item ''range'' ''units'' = Null" by code_simp
  have 6: "field_of sample_spent ''range'' ''value'' = Str ''''" by code_simp
  from range_split [of sample_item int_host] 1 2 3 5
  have 7: "field_of (fst (migrateData int_host sample_item)) ''range'' ''value''
         = Num (toNumber int_host (Str ''150''))"
    "field_of (fst (migrateData int_host sample_item)) ''range'' ''long''
         = Num (toNumber int_host (Str ''600''))"
    "field_of (fst (migrateData int_host sample_item)) ''range'' ''units'' = Str ''''"
    by blast+
  from range_split [of sample_spent int_host] 6
  have 8: "field_of (fst (migrateData int_host sample_spent)) ''range'' ''value'' = Null"
    by blast
  from 1 2 3 4 5 6 7 8 show ?thesis by simp
qed

subsection \<open>Uses and consume\<close>

lemma coerce_field_lookup:
  "lookup (coerce_field h k r) k =
     (case lookup r k of
        Str str \<Rightarrow> if str = '''' then Null
                   else if isNumeric h (Str str) then Num (toNumber h (Str str)) else Str str
      | x \<Rightarrow> x)"
  by (simp add: coerce_field_def lookup_update split: jsval.splits)

lemma default_field_lookup:
  "lookup (default_field k x d r) k = (if lookup r k = x then d else lookup r k)"
  by (simp add: default_field_def lookup_update)

lemma uses_obj_value:
  "lookup (uses_obj h r) ''value'' = lookup (coerce_field h ''value'' r) ''value''"
  by (simp add: uses_obj_def default_field_lookup_other)

lemma uses_obj_recovery:
  "lookup (uses_obj h r) ''recovery'' =
     (if lookup r ''recovery'' = Undefined then Str '''' else lookup r ''recovery'')"
  by (simp add: uses_obj_def default_field_lookup coerce_field_lookup_other)

lemma consume_obj_type:
  "lookup (consume_obj h r) ''type'' =
     (if lookup r ''type'' = Null then Str '''' else lookup r ''type'')"
  by (simp add: consume_obj_def default_field_lookup coerce_field_lookup_other)

lemma consume_obj_amount:
  "lookup (consume_obj h r) ''amount'' = lookup (coerce_field h ''amount'' r) ''amount''"
  by (simp add: consume_obj_def coerce_field_lookup default_field_lookup_other)

lemma seq_run:
  "snd (seq f g s) = None \<Longrightarrow>
   snd (f s) = None \<and> snd (g (fst (f s))) = None \<and> fst (seq f g s) = fst (g (fst (f s)))"
  by (simp add: seq_ok seq_fst)

lemma migrateData_uses:
  assumes ok: "snd (migrateData h s) = None" and u: "map_of s ''uses'' = Some (Obj u)"
  shows "field_of (fst (migrateData h s)) ''uses'' k2 =
         lookup (uses_obj h (formula_obj h ''max'' u)) k2"
proof -
  let ?s1 = "fst (formula_field h ''uses'' ''max'' s)"
  let ?s2 = "fst (formula_field h ''duration'' ''value'' ?s1)"
  let ?s3 = "fst (migrateRanges h ?s2)"
  let ?s4 = "fst (migrateTargets ?s3)"
  let ?s5 = "fst (migrateUses h ?s4)"
  from ok have e: "fst (migrateData h s) = fst (migrateConsume h ?s5)"
    unfolding migrateData_steps by (auto dest!: seq_run)
  have "map_of ?s1 ''uses'' = Some (Obj (formula_obj h ''max'' u))"
    by (simp add: acts_on_obj [OF formula_field_acts u] update_conv')
  then have "map_of ?s4 ''uses'' = Some (Obj (formula_obj h ''max'' u))"
    by (simp add: acts_on_map_of_other [OF formula_field_acts]
          acts_on_map_of_other [OF migrateRanges_acts]
          acts_on_map_of_other [OF migrateTargets_acts])
  then have "field_of ?s5 ''uses'' k2 = lookup (uses_obj h (formula_obj h ''max'' u)) k2"
    by (rule acts_on_field [OF migrateUses_acts])
  moreover have "field_of (fst (migrateConsume h ?s5)) ''uses'' k2 = field_of ?s5 ''uses'' k2"
    using keepsD [OF acts_on_keeps_field_other [OF migrateConsume_acts, of "''uses''" k2]]
    by simp
  ultimately show ?thesis by (simp add: e)
qed

lemma migrateData_consume:
  assumes ok: "snd (migrateData h s) = None" and c: "map_of s ''consume'' = Some (Obj c)"
  shows "field_of (fst (migrateData h s)) ''consume'' k2 = lookup (consume_obj h c) k2"
proof -
  let ?s1 = "fst (formula_field h ''uses'' ''max'' s)"
  let ?s2 = "fst (formula_field h ''duration'' ''value'' ?s1)"
  let ?s3 = "fst (migrateRanges h ?s2)"
  let ?s4 = "fst (migrateTargets ?s3)"
  let ?s5 = "fst (migrateUses h ?s4)"
  from ok have e: "fst (migrateData h s) = fst (migrateConsume h ?s5)"
    unfolding migrateData_steps by (auto dest!: seq_run)
  have "map_of ?s5 ''consume'' = Some (Obj c)"
    using c
    by (simp add: acts_on_map_of_other [OF formula_field_acts]
          acts_on_map_of_other [OF migrateRanges_acts]
          acts_on_map_of_other [OF migrateTargets_acts]
          acts_on_map_of_other [OF migrateUses_acts])
  then have "field_of (fst (migrateConsume h ?s5)) ''consume'' k2 = lookup (consume_obj h c) k2"
    by (rule acts_on_field [OF migrateConsume_acts])
  then show ?thesis by (simp add: e)
qed

lemma lookup_obj: "lookup s k = Obj r \<Longrightarrow> map_of s k = Some (Obj r)"
  by (cases "map_of s k") (simp_all add: lookup_def)

lemma uses_after:
  assumes "lookup s ''uses'' = Obj u"
  shows "after (migrateUses h) s ''uses'' k2 (lookup (uses_obj h u) k2)"
    and "leaves (migrateData h) s ''uses'' k2 (lookup (uses_obj h (formula_obj h ''max'' u)) k2)"
proof -
  note m = lookup_obj [OF assms]
  show "after (migrateUses h) s ''uses'' k2 (lookup (uses_obj h u) k2)"
    by (simp add: after_def migrateUses_obj [OF m] lookup_update getq_def)
  show "leaves (migrateData h) s ''uses'' k2 (lookup (uses_obj h (formula_obj h ''max'' u)) k2)"
    by (simp add: leaves_def migrateData_uses [OF _ m])
qed

lemma consume_after:
  assumes "lookup s ''consume'' = Obj c"
  shows "after (migrateConsume h) s ''consume'' k2 (lookup (consume_obj h c) k2)"
    and "leaves (migrateData h) s ''consume'' k2 (lookup (consume_obj h c) k2)"
proof -
  note m = lookup_obj [OF assms]
  show "after (migrateConsume h) s ''consume'' k2 (lookup (consume_obj h c) k2)"
    by (simp add: after_def migrateConsume_obj [OF m] lookup_update getq_def)
  show "leaves (migrateData h) s ''consume'' k2 (lookup (consume_obj h c) k2)"
    by (simp add: leaves_def migrateData_consume [OF _ m])
qed

lemma field_of_lookup:
  "field_of s k1 k2 = x \<Longrightarrow> x \<noteq> Undefined \<Longrightarrow> \<exists>r. lookup s k1 = Obj r \<and> lookup r k2 = x"
  by (cases "lookup s k1") (auto simp add: getq_def)

lemma acts_on_objish: "acts_on k F E f \<Longrightarrow> objish (fst (f s)) k' = objish s k'"
  using acts_on_result [of k F E f s]
  by (cases "k' = k") (auto simp add: objish_def update_conv')

lemma acts_on_completes: "acts_on k F E f \<Longrightarrow> objish s k \<Longrightarrow> snd (f s) = None"
  unfolding acts_on_def
  by (erule allE [of _ s]) (simp add: objish_def split: option.splits jsval.splits)

lemma seq_completes:
  "snd (f s) = None \<Longrightarrow> snd (g (fst (f s))) = None \<Longrightarrow> snd (seq f g s) = None"
  by (simp add: seq_ok)

lemma item_shaped_completes:
  assumes "item_shaped s"
  shows "snd (migrateData h s) = None"
proof -
  let ?s1 = "fst (formula_field h ''uses'' ''max'' s)"
  let ?s2 = "fst (formula_field h ''duration'' ''value'' ?s1)"
  let ?s3 = "fst (migrateRanges h ?s2)"
  let ?s4 = "fst (migrateTargets ?s3)"
  let ?s5 = "fst (migrateUses h ?s4)"
  note ff = formula_field_acts
  from assms have r: "objish ?s2 ''range''"
    by (simp add: item_shaped_def acts_on_objish [OF ff])
  from assms have u: "objish ?s4 ''uses''"
    by (simp add: item_shaped_def acts_on_objish [OF ff] acts_on_objish [OF migrateRanges_acts]
          acts_on_objish [OF migrateTargets_acts])
  from assms have c: "objish ?s5 ''consume''"
    by (simp add: item_shaped_def acts_on_objish [OF ff] acts_on_objish [OF migrateRanges_acts]
          acts_on_objish [OF migrateTargets_acts] acts_on_objish [OF migrateUses_acts])
  show ?thesis
    unfolding migrateData_steps
    by (intro seq_completes acts_on_total [OF ff] acts_on_total [OF migrateTargets_acts]
          acts_on_completes [OF migrateRanges_acts r] acts_on_completes [OF migrateUses_acts u]
          acts_on_completes [OF migrateConsume_acts c])
qed

text \<open>
  C7. For a source whose \<^verbatim>\<open>uses\<close> is an object, \<^verbatim>\<open>#migrateUses\<close> completes, and it and every
  run of \<^verbatim>\<open>migrateData\<close> that completes turn an empty-string \<^verbatim>\<open>uses.value\<close> into \<^verbatim>\<open>null\<close>,
  a numeric-string \<^verbatim>\<open>uses.value\<close> into the number, and a missing \<^verbatim>\<open>uses.recovery\<close> into the
  empty string. For a source whose \<^verbatim>\<open>consume\<close> is an object, \<^verbatim>\<open>#migrateConsume\<close> completes,
  and it and every run of \<^verbatim>\<open>migrateData\<close> that completes turn a \<^verbatim>\<open>null\<close> \<^verbatim>\<open>consume.type\<close>
  into the empty string, an empty-string \<^verbatim>\<open>consume.amount\<close> into \<^verbatim>\<open>null\<close> and a
  numeric-string \<^verbatim>\<open>consume.amount\<close> into the number. And \<^verbatim>\<open>migrateData\<close> completes on every
  source in which \<^verbatim>\<open>range\<close>, \<^verbatim>\<open>uses\<close> and \<^verbatim>\<open>consume\<close> are each absent or an object.
\<close>

theorem uses_consume_coerced:
  "(field_of s ''uses'' ''value'' = Str '''' \<longrightarrow>
      after (migrateUses h) s ''uses'' ''value'' Null
      \<and> leaves (migrateData h) s ''uses'' ''value'' Null)
   \<and> (\<forall>str. field_of s ''uses'' ''value'' = Str str \<and> str \<noteq> '''' \<and> isNumeric h (Str str) \<longrightarrow>
      after (migrateUses h) s ''uses'' ''value'' (Num (toNumber h (Str str)))
      \<and> leaves (migrateData h) s ''uses'' ''value'' (Num (toNumber h (Str str))))
   \<and> (\<forall>u. lookup s ''uses'' = Obj u \<and> lookup u ''recovery'' = Undefined \<longrightarrow>
      after (migrateUses h) s ''uses'' ''recovery'' (Str '''')
      \<and> leaves (migrateData h) s ''uses'' ''recovery'' (Str ''''))
   \<and> (field_of s ''consume'' ''type'' = Null \<longrightarrow>
      after (migrateConsume h) s ''consume'' ''type'' (Str '''')
      \<and> leaves (migrateData h) s ''consume'' ''type'' (Str ''''))
   \<and> (field_of s ''consume'' ''amount'' = Str '''' \<longrightarrow>
      after (migrateConsume h) s ''consume'' ''amount'' Null
      \<and> leaves (migrateData h) s ''consume'' ''amount'' Null)
   \<and> (\<forall>str. field_of s ''consume'' ''amount'' = Str str \<and> str \<noteq> ''''
         \<and> isNumeric h (Str str) \<longrightarrow>
      after (migrateConsume h) s ''consume'' ''amount'' (Num (toNumber h (Str str)))
      \<and> leaves (migrateData h) s ''consume'' ''amount'' (Num (toNumber h (Str str))))
   \<and> (item_shaped s \<longrightarrow> snd (migrateData h s) = None)"
proof -
  note [simp] = uses_obj_value uses_obj_recovery consume_obj_type consume_obj_amount
    coerce_field_lookup formula_obj_lookup_other
  have u: "\<exists>u. lookup u k2 = x
      \<and> after (migrateUses h) s ''uses'' k2 (lookup (uses_obj h u) k2)
      \<and> leaves (migrateData h) s ''uses'' k2 (lookup (uses_obj h (formula_obj h ''max'' u)) k2)"
    if "field_of s ''uses'' k2 = x" "x \<noteq> Undefined" for x k2
    using field_of_lookup [OF that] by (blast intro: uses_after)
  have c: "\<exists>c. lookup c k2 = x
      \<and> after (migrateConsume h) s ''consume'' k2 (lookup (consume_obj h c) k2)
      \<and> leaves (migrateData h) s ''consume'' k2 (lookup (consume_obj h c) k2)"
    if "field_of s ''consume'' k2 = x" "x \<noteq> Undefined" for x k2
    using field_of_lookup [OF that] by (blast intro: consume_after)
  have 1: "after (migrateUses h) s ''uses'' ''value'' Null
      \<and> leaves (migrateData h) s ''uses'' ''value'' Null"
    if "field_of s ''uses'' ''value'' = Str ''''"
    using u [OF that] by auto
  have 2: "after (migrateUses h) s ''uses'' ''value'' (Num (toNumber h (Str str)))
      \<and> leaves (migrateData h) s ''uses'' ''value'' (Num (toNumber h (Str str)))"
    if "field_of s ''uses'' ''value'' = Str str" "str \<noteq> ''''" "isNumeric h (Str str)" for str
    using u [OF that(1)] that(2,3) by auto
  have 3: "after (migrateUses h) s ''uses'' ''recovery'' (Str '''')
      \<and> leaves (migrateData h) s ''uses'' ''recovery'' (Str '''')"
    if "lookup s ''uses'' = Obj u" "lookup u ''recovery'' = Undefined" for u
    using uses_after [OF that(1), of h "''recovery''"] that(2) by simp
  have 4: "after (migrateConsume h) s ''consume'' ''type'' (Str '''')
      \<and> leaves (migrateData h) s ''consume'' ''type'' (Str '''')"
    if "field_of s ''consume'' ''type'' = Null"
    using c [OF that] by auto
  have 5: "after (migrateConsume h) s ''consume'' ''amount'' Null
      \<and> leaves (migrateData h) s ''consume'' ''amount'' Null"
    if "field_of s ''consume'' ''amount'' = Str ''''"
    using c [OF that] by auto
  have 6: "after (migrateConsume h) s ''consume'' ''amount'' (Num (toNumber h (Str str)))
      \<and> leaves (migrateData h) s ''consume'' ''amount'' (Num (toNumber h (Str str)))"
    if "field_of s ''consume'' ''amount'' = Str str" "str \<noteq> ''''" "isNumeric h (Str str)" for str
    using c [OF that(1)] that(2,3) by auto
  have 7: "snd (migrateData h s) = None" if "item_shaped s"
    using that by (rule item_shaped_completes)
  from 1 2 3 4 5 6 7 show ?thesis by blast
qed

theorem uses_consume_coerced_witness:
  "item_shaped sample_item \<and> item_shaped sample_spent
   \<and> field_of sample_spent ''uses'' ''value'' = Str ''''
   \<and> after (migrateUses int_host) sample_spent ''uses'' ''value'' Null
   \<and> after (migrateData int_host) sample_spent ''uses'' ''value'' Null
   \<and> field_of sample_item ''uses'' ''value'' = Str ''3''
   \<and> isNumeric int_host (Str ''3'') \<and> toNumber int_host (Str ''3'') = 3
   \<and> after (migrateUses int_host) sample_item ''uses'' ''value'' (Num 3)
   \<and> after (migrateData int_host) sample_item ''uses'' ''value'' (Num 3)
   \<and> field_of sample_item ''uses'' ''recovery'' = Undefined
   \<and> after (migrateUses int_host) sample_item ''uses'' ''recovery'' (Str '''')
   \<and> after (migrateData int_host) sample_item ''uses'' ''recovery'' (Str '''')
   \<and> field_of sample_item ''consume'' ''type'' = Null
   \<and> after (migrateConsume int_host) sample_item ''consume'' ''type'' (Str '''')
   \<and> after (migrateData int_host) sample_item ''consume'' ''type'' (Str '''')
   \<and> field_of sample_item ''consume'' ''amount'' = Str ''''
   \<and> after (migrateConsume int_host) sample_item ''consume'' ''amount'' Null
   \<and> after (migrateData int_host) sample_item ''consume'' ''amount'' Null
   \<and> field_of sample_spent ''consume'' ''amount'' = Str ''1''
   \<and> isNumeric int_host (Str ''1'') \<and> toNumber int_host (Str ''1'') = 1
   \<and> after (migrateConsume int_host) sample_spent ''consume'' ''amount'' (Num 1)
   \<and> after (migrateData int_host) sample_spent ''consume'' ''amount'' (Num 1)"
proof -
  have sh: "item_shaped sample_item" "item_shaped sample_spent" by code_simp+
  have ok: "snd (migrateData int_host sample_item) = None"
    "snd (migrateData int_host sample_spent) = None"
    using uses_consume_coerced [of sample_item int_host]
      uses_consume_coerced [of sample_spent int_host] sh by blast+
  have l: "\<And>s k1 k2 x. snd (migrateData int_host s) = None \<Longrightarrow>
      leaves (migrateData int_host) s k1 k2 x \<Longrightarrow> after (migrateData int_host) s k1 k2 x"
    by (simp add: leaves_def after_def)
  have 1: "field_of sample_spent ''uses'' ''value'' = Str ''''" by code_simp
  have 2: "field_of sample_item ''uses'' ''value'' = Str ''3''" by code_simp
  have 3: "isNumeric int_host (Str ''3'')" "toNumber int_host (Str ''3'') = 3" by code_simp+
  have 4: "lookup sample_item ''uses'' = Obj [(''value'', Str ''3''), (''max'', Num 0), (''per'', Null)]"
    "lookup [(''value'', Str ''3''), (''max'', Num (0::int)), (''per'', Null)] ''recovery''
       = Undefined"
    "field_of sample_item ''uses'' ''recovery'' = Undefined"
    by code_simp+
  have 5: "field_of sample_item ''consume'' ''type'' = Null" by code_simp
  have 6: "field_of sample_item ''consume'' ''amount'' = Str ''''" by code_simp
  have 7: "field_of sample_spent ''consume'' ''amount'' = Str ''1''" by code_simp
  have 8: "isNumeric int_host (Str ''1'')" "toNumber int_host (Str ''1'') = 1" by code_simp+
  note a = uses_consume_coerced [of sample_item int_host]
  note b = uses_consume_coerced [of sample_spent int_host]
  from b 1 have c1: "after (migrateUses int_host) sample_spent ''uses'' ''value'' Null"
    "leaves (migrateData int_host) sample_spent ''uses'' ''value'' Null" by blast+
  from a 2 3 have c2:
    "after (migrateUses int_host) sample_item ''uses'' ''value'' (Num (toNumber int_host (Str ''3'')))"
    "leaves (migrateData int_host) sample_item ''uses'' ''value'' (Num (toNumber int_host (Str ''3'')))"
    by auto
  from a 4 have c3: "after (migrateUses int_host) sample_item ''uses'' ''recovery'' (Str '''')"
    "leaves (migrateData int_host) sample_item ''uses'' ''recovery'' (Str '''')" by blast+
  from a 5 have c4: "after (migrateConsume int_host) sample_item ''consume'' ''type'' (Str '''')"
    "leaves (migrateData int_host) sample_item ''consume'' ''type'' (Str '''')" by blast+
  from a 6 have c5: "after (migrateConsume int_host) sample_item ''consume'' ''amount'' Null"
    "leaves (migrateData int_host) sample_item ''consume'' ''amount'' Null" by blast+
  from b 7 8 have c6:
    "after (migrateConsume int_host) sample_spent ''consume'' ''amount'' (Num (toNumber int_host (Str ''1'')))"
    "leaves (migrateData int_host) sample_spent ''consume'' ''amount'' (Num (toNumber int_host (Str ''1'')))"
    by auto
  show ?thesis
    using sh 1 2 3 4(3) 5 6 7 8 c1(1) c2(1) c3(1) c4(1) c5(1) c6(1)
      l [OF ok(2) c1(2)] l [OF ok(1) c2(2)] l [OF ok(1) c3(2)] l [OF ok(1) c4(2)]
      l [OF ok(1) c5(2)] l [OF ok(2) c6(2)]
    by simp
qed

section \<open>The senses migration\<close>

subsection \<open>Repeated assignments\<close>

lemma update_swap_present:
  "k \<in> fst ` set al \<Longrightarrow> k \<noteq> k' \<Longrightarrow>
   AList.update k v (AList.update k' v' al) = AList.update k' v' (AList.update k v al)"
  by (induction al) auto

lemma upds_Cons: "upds (p # ps) r = upds ps (AList.update (fst p) (snd p) r)"
  by (simp add: upds_def)

lemma upds_Nil: "upds [] r = r"
  by (simp add: upds_def)

lemma upds_append: "upds (ps @ qs) r = upds qs (upds ps r)"
  by (simp add: upds_def)

lemma upds_keys: "fst ` set (upds ps r) = fst ` set ps \<union> fst ` set r"
  by (induction ps arbitrary: r) (auto simp add: upds_Cons upds_Nil dom_update)

lemma upds_absorb:
  "k \<in> fst ` set r \<Longrightarrow>
   upds ps (AList.update k v r) =
     (if k \<in> fst ` set ps then upds ps r else AList.update k v (upds ps r))"
proof (induction ps arbitrary: r)
  case Nil
  then show ?case by (simp add: upds_Nil)
next
  case (Cons p ps)
  show ?case
  proof (cases "fst p = k")
    case True
    then show ?thesis by (simp add: upds_Cons)
  next
    case False
    have "upds (p # ps) (AList.update k v r)
        = upds ps (AList.update k v (AList.update (fst p) (snd p) r))"
      using False update_swap_present [OF Cons.prems, of "fst p" v "snd p"]
      by (simp add: upds_Cons)
    moreover have "k \<in> fst ` set (AList.update (fst p) (snd p) r)"
      using Cons.prems by (simp add: dom_update)
    ultimately show ?thesis
      using False Cons.IH [of "AList.update (fst p) (snd p) r"] by (simp add: upds_Cons)
  qed
qed

lemma upds_map_of_notin:
  "k \<notin> fst ` set ps \<Longrightarrow> map_of (upds ps r) k = map_of r k"
  by (induction ps arbitrary: r) (auto simp add: upds_Cons upds_Nil update_conv')

lemma upds_idem: "upds ps (upds ps r) = upds ps r"
proof (induction ps arbitrary: r)
  case Nil
  then show ?case by (simp add: upds_Nil)
next
  case (Cons p ps)
  let ?r1 = "AList.update (fst p) (snd p) r"
  let ?R = "upds ps ?r1"
  have in_R: "fst p \<in> fst ` set ?R" by (simp add: upds_keys dom_update)
  have "upds (p # ps) (upds (p # ps) r) = upds ps (AList.update (fst p) (snd p) ?R)"
    by (simp add: upds_Cons)
  also have "\<dots> = ?R"
  proof (cases "fst p \<in> fst ` set ps")
    case True
    then show ?thesis by (simp add: upds_absorb [OF in_R] Cons.IH)
  next
    case False
    then have "map_of ?R (fst p) = Some (snd p)"
      by (simp add: upds_map_of_notin update_conv')
    then have "AList.update (fst p) (snd p) ?R = ?R" by (rule update_triv)
    then show ?thesis by (simp add: Cons.IH)
  qed
  finally show ?case by (simp add: upds_Cons)
qed

lemma upds_last:
  "k \<notin> fst ` set qs \<Longrightarrow> map_of (upds (ps @ (k, v) # qs) r) k = Some v"
  by (simp add: upds_append upds_Cons upds_map_of_notin update_conv')

subsection \<open>The senses migration, step by step\<close>

lemma migrateSensesData_split:
  "migrateSensesData h cfg s =
     (case field_of s ''traits'' ''senses'' of
        Str original \<Rightarrow> seq senses_init (senses_body h cfg original) s
      | _ \<Rightarrow> (s, None))"
proof -
  have "\<And>original. senses_body h cfg original =
      (\<lambda>s. case senses_loop h cfg (split_on CHR '','' original) (s, False) of
              ((s', wasMatched), None) \<Rightarrow>
                if \<not> wasMatched \<and> original \<noteq> ''''
                then assign3 ''attributes'' ''senses'' ''special'' (Str original) s'
                else skip s'
            | ((s', _), Some e) \<Rightarrow> (s', Some e))"
    by (rule ext) (simp add: senses_body_def)
  then show ?thesis
    by (simp add: migrateSensesData_def senses_init_def seq_assoc split: jsval.splits)
qed

lemma ready_lookup:
  "ready s a v \<Longrightarrow> lookup s ''attributes'' = Obj a \<and> lookup a ''senses'' = v"
  by (simp add: ready_def lookup_def)

lemma assign3_ready_obj:
  "ready s a (Obj r) \<Longrightarrow>
   assign3 ''attributes'' ''senses'' k v s = (with_senses s a (AList.update k v r), None)"
  by (simp add: assign3_def assign2_def get_def put_def with_senses_def ready_lookup)

lemma assign3_ready_prim:
  "ready s a v0 \<Longrightarrow> \<forall>r. v0 \<noteq> Obj r \<Longrightarrow>
   assign3 ''attributes'' ''senses'' k v s = (s, Some TypeError)"
  by (cases v0) (simp_all add: assign3_def get_def put_def ready_lookup)

lemma ready_with_senses:
  "ready s a v \<Longrightarrow> ready (with_senses s a r) (AList.update ''senses'' (Obj r) a) (Obj r)"
  by (simp add: ready_def with_senses_def update_conv' nullish_def)

lemma with_senses_again:
  "with_senses (with_senses s a r) (AList.update ''senses'' (Obj r) a) r' = with_senses s a r'"
  by (simp add: with_senses_def)

lemma with_senses_same: "ready s a (Obj r) \<Longrightarrow> with_senses s a r = s"
  by (simp add: with_senses_def ready_def update_triv)

lemma ready_rewrite: "ready s a v \<Longrightarrow> assign2 ''attributes'' ''senses'' v s = (s, None)"
  using ready_lookup [of s a v]
  by (simp add: assign2_def put_def ready_def update_triv)

lemma assign3_number_plain:
  "k3 \<noteq> ''__proto__'' \<Longrightarrow> assign3_number k1 k2 k3 n s = assign3 k1 k2 k3 (Num n) s"
  by (simp add: assign3_number_def assign3_def put_number_def put_def
        split: sum.splits jsval.splits)

lemma assign3_number_ready_obj:
  assumes "ready s a (Obj r)"
  shows "assign3_number ''attributes'' ''senses'' k n s =
     (if k = ''__proto__'' \<and> \<not> has_key r ''__proto__'' then (s, None)
      else (with_senses s a (AList.update k (Num n) r), None))"
proof (cases "k = ''__proto__'' \<and> \<not> has_key r ''__proto__''")
  case True
  with ready_lookup [OF assms] ready_rewrite [OF assms] show ?thesis
    by (simp add: assign3_number_def get_def put_number_def)
next
  case False
  with ready_lookup [OF assms] show ?thesis
    by (auto simp add: assign3_number_def assign2_def get_def put_number_def put_def
          with_senses_def)
qed

lemma assign3_number_ready_prim:
  assumes "ready s a v0" "\<forall>r. v0 \<noteq> Obj r"
  shows "assign3_number ''attributes'' ''senses'' k n s =
     (s, if k = ''__proto__'' then None else Some TypeError)"
proof -
  from assms(1) have "\<not> nullish v0" by (simp add: ready_def)
  with assms(2) ready_lookup [OF assms(1)] ready_rewrite [OF assms(1)] show ?thesis
    by (cases v0)
       (simp_all add: assign3_number_def get_def put_number_def put_def nullish_def)
qed

lemma senses_term_sense_of:
  "senses_term h cfg t (s, w) =
     (case sense_of h cfg t of
        None \<Rightarrow> ((s, w), None)
      | Some p \<Rightarrow>
          (case assign3_number ''attributes'' ''senses'' (fst p) (snd p) s of
             (s', None) \<Rightarrow> ((s', True), None)
           | (s', Some e) \<Rightarrow> ((s', w), Some e)))"
  by (simp add: senses_term_def sense_of_def Let_def split: option.splits prod.splits)

lemma sense_updates_Nil: "sense_updates h cfg [] = []"
  by (simp add: sense_updates_def)

lemma sense_updates_Cons:
  "sense_updates h cfg (t # ts) =
     (case sense_of h cfg t of
        None \<Rightarrow> sense_updates h cfg ts
      | Some p \<Rightarrow> (fst p, Num (snd p)) # sense_updates h cfg ts)"
  by (simp add: sense_updates_def split: option.splits)

lemma effective_Nil: "effective own [] = []"
  by (simp add: effective_def)

lemma effective_Cons:
  "effective own (p # ps) =
     (if fst p = ''__proto__'' \<and> \<not> own then effective own ps else p # effective own ps)"
  by (simp add: effective_def)

lemma effective_append: "effective own (ps @ qs) = effective own ps @ effective own qs"
  by (simp add: effective_def)

lemma effective_keys: "k \<in> fst ` set (effective own ps) \<Longrightarrow> k \<in> fst ` set ps"
  by (auto simp add: effective_def)

lemma effective_no_proto: "''__proto__'' \<notin> fst ` set (effective False ps)"
  by (auto simp add: effective_def)

lemma senses_loop_obj:
  "ready s a (Obj r) \<Longrightarrow>
   senses_loop h cfg terms (s, w) =
     ((with_senses s a (upds (effective (has_key r ''__proto__'') (sense_updates h cfg terms)) r),
       w \<or> sense_updates h cfg terms \<noteq> []), None)"
proof (induction terms arbitrary: s a r w)
  case Nil
  then show ?case by (simp add: sense_updates_Nil effective_Nil upds_Nil with_senses_same)
next
  case (Cons t ts)
  show ?case
  proof (cases "sense_of h cfg t")
    case None
    with Cons show ?thesis by (simp add: senses_term_sense_of sense_updates_Cons)
  next
    case (Some p)
    show ?thesis
    proof (cases "fst p = ''__proto__'' \<and> \<not> has_key r ''__proto__''")
      case True
      from Cons.IH [OF Cons.prems, of True] Some True show ?thesis
        by (simp add: senses_term_sense_of sense_updates_Cons effective_Cons
              assign3_number_ready_obj [OF Cons.prems])
    next
      case False
      let ?r1 = "AList.update (fst p) (Num (snd p)) r"
      have rd: "ready (with_senses s a ?r1) (AList.update ''senses'' (Obj ?r1) a) (Obj ?r1)"
        by (rule ready_with_senses [OF Cons.prems])
      from False have hk: "has_key ?r1 ''__proto__'' = has_key r ''__proto__''"
        by (auto simp add: has_key_update)
      from False have e: "effective (has_key r ''__proto__'') (sense_updates h cfg (t # ts))
          = (fst p, Num (snd p)) # effective (has_key r ''__proto__'') (sense_updates h cfg ts)"
        using Some by (auto simp add: sense_updates_Cons effective_Cons)
      from False have a: "assign3_number ''attributes'' ''senses'' (fst p) (snd p) s
          = (with_senses s a ?r1, None)"
        by (simp only: assign3_number_ready_obj [OF Cons.prems] if_False)
      have "senses_loop h cfg (t # ts) (s, w) = senses_loop h cfg ts (with_senses s a ?r1, True)"
        using Some a by (simp add: senses_term_sense_of)
      also have "\<dots> = ((with_senses s a
            (upds (effective (has_key r ''__proto__'') (sense_updates h cfg ts)) ?r1), True), None)"
        using Cons.IH [OF rd, of True] by (simp add: with_senses_again hk)
      finally have f: "senses_loop h cfg (t # ts) (s, w) = ((with_senses s a
            (upds (effective (has_key r ''__proto__'') (sense_updates h cfg ts)) ?r1), True), None)" .
      have ne: "sense_updates h cfg (t # ts) \<noteq> []"
        using Some by (simp add: sense_updates_Cons)
      show ?thesis
        unfolding f e upds_Cons using ne by simp
    qed
  qed
qed

lemma senses_loop_prim:
  assumes "ready s a v0" "\<forall>r. v0 \<noteq> Obj r"
  shows "fst (fst (senses_loop h cfg terms (s, w))) = s
     \<and> snd (senses_loop h cfg terms (s, w)) =
         (if effective False (sense_updates h cfg terms) = [] then None else Some TypeError)
     \<and> (effective False (sense_updates h cfg terms) = [] \<longrightarrow>
          snd (fst (senses_loop h cfg terms (s, w))) = (w \<or> sense_updates h cfg terms \<noteq> []))"
proof (induction terms arbitrary: w)
  case Nil
  then show ?case by (simp add: sense_updates_Nil effective_Nil)
next
  case (Cons t ts)
  show ?case
  proof (cases "sense_of h cfg t")
    case None
    with Cons [of w] show ?thesis by (simp add: senses_term_sense_of sense_updates_Cons)
  next
    case (Some p)
    show ?thesis
    proof (cases "fst p = ''__proto__''")
      case True
      with Some Cons [of True] show ?thesis
        by (simp add: senses_term_sense_of sense_updates_Cons effective_Cons
              assign3_number_ready_prim [OF assms])
    next
      case False
      with Some show ?thesis
        by (simp add: senses_term_sense_of sense_updates_Cons effective_Cons
              assign3_number_ready_prim [OF assms])
    qed
  qed
qed

lemma senses_body_obj:
  assumes "ready s a (Obj r)"
  shows "senses_body h cfg original s =
         (with_senses s a (upds (all_updates h cfg original (has_key r ''__proto__'')) r), None)"
proof (cases "sense_updates h cfg (split_on CHR '','' original) = []")
  case True
  with assms show ?thesis
    by (simp add: senses_body_def senses_loop_obj [OF assms] all_updates_def Let_def
          with_senses_same assign3_ready_obj [OF assms] upds_Cons upds_Nil skip_def
          effective_Nil)
next
  case False
  then show ?thesis
    by (simp add: senses_body_def senses_loop_obj [OF assms] all_updates_def Let_def skip_def)
qed

lemma senses_body_prim:
  assumes "ready s a v0" "\<forall>r. v0 \<noteq> Obj r"
  shows "senses_body h cfg original s =
         (s, if all_updates h cfg original False = [] then None else Some TypeError)"
proof -
  let ?ts = "split_on CHR '','' original"
  obtain s' w' e where l: "senses_loop h cfg ?ts (s, False) = ((s', w'), e)"
    by (cases "senses_loop h cfg ?ts (s, False)") auto
  from senses_loop_prim [OF assms, of h cfg ?ts False] l
  have s': "s' = s"
    and e: "e = (if effective False (sense_updates h cfg ?ts) = [] then None else Some TypeError)"
    and w': "effective False (sense_updates h cfg ?ts) = [] \<Longrightarrow>
             w' = (sense_updates h cfg ?ts \<noteq> [])"
    by simp_all
  show ?thesis
  proof (cases "effective False (sense_updates h cfg ?ts) = []")
    case True
    with w' have "w' = (sense_updates h cfg ?ts \<noteq> [])" by simp
    with True e s' show ?thesis
      by (simp add: senses_body_def l all_updates_def Let_def skip_def
            assign3_ready_prim [OF assms])
  next
    case False
    then have "sense_updates h cfg ?ts \<noteq> []" by (auto simp add: effective_Nil)
    with False e s' show ?thesis
      by (simp add: senses_body_def l all_updates_def Let_def)
  qed
qed

lemma lookup_Nil: "lookup [] k = Undefined"
  by (simp add: lookup_def)

lemma senses_init_ready: "ready s a v \<Longrightarrow> senses_init s = (s, None)"
  using ready_lookup [of s a v]
  by (simp add: senses_init_def seq_def skip_def eval_then_def get_def nullish_def ready_def)

lemma senses_init_nullish:
  "nullish (lookup s ''attributes'') \<Longrightarrow>
   senses_init s = (AList.update ''attributes'' (Obj [(''senses'', Obj [])]) s, None)"
  by (simp add: senses_init_def stmt_defs lookup_update lookup_Nil nullish_def)

lemma senses_init_obj_nullish:
  "lookup s ''attributes'' = Obj a \<Longrightarrow> nullish (lookup a ''senses'') \<Longrightarrow>
   senses_init s =
     (AList.update ''attributes'' (Obj (AList.update ''senses'' (Obj []) a)) s, None)"
  by (simp add: senses_init_def stmt_defs nullish_def)

lemma senses_init_cases:
  "(\<exists>a v. senses_init s = (s, None) \<and> ready s a v)
   \<or> (\<exists>a. senses_init s = (AList.update ''attributes'' (Obj a) s, None)
          \<and> ready (AList.update ''attributes'' (Obj a) s) a (Obj []))
   \<or> senses_init s = (s, Some TypeError)"
proof (cases "nullish (lookup s ''attributes'')")
  case True
  have "ready (AList.update ''attributes'' (Obj [(''senses'', Obj [])]) s)
          [(''senses'', Obj [])] (Obj [])"
    by (simp add: ready_def update_conv' nullish_def)
  with senses_init_nullish [OF True] show ?thesis by blast
next
  case False
  show ?thesis
  proof (cases "lookup s ''attributes''")
    case (Obj a)
    then have m: "map_of s ''attributes'' = Some (Obj a)"
      by (cases "map_of s ''attributes''") (simp_all add: lookup_def)
    show ?thesis
    proof (cases "nullish (lookup a ''senses'')")
      case True
      have "ready (AList.update ''attributes'' (Obj (AList.update ''senses'' (Obj []) a)) s)
              (AList.update ''senses'' (Obj []) a) (Obj [])"
        by (simp add: ready_def update_conv' nullish_def)
      with senses_init_obj_nullish [OF Obj True] show ?thesis by blast
    next
      case False
      then have "map_of a ''senses'' = Some (lookup a ''senses'')"
        by (cases "map_of a ''senses''") (simp_all add: lookup_def nullish_def)
      with m False have "ready s a (lookup a ''senses'')" by (simp add: ready_def)
      with senses_init_ready [OF this] show ?thesis by blast
    qed
  qed (use False in \<open>simp_all add: senses_init_def stmt_defs nullish_def\<close>)
qed

lemma sense_of_term_sense:
  "term_sense cfg t = Some (k, d) \<Longrightarrow>
   sense_of h cfg t = Some (k, toNearestHalf h (toNumber h (Str d)))"
  by (auto simp add: sense_of_def term_sense_def js_in_def split: option.splits if_splits)

lemma sense_of_own:
  "sense_of h cfg t = Some (k, n) \<Longrightarrow> k \<in> set cfg \<Longrightarrow> \<exists>d. term_sense cfg t = Some (k, d)"
  by (auto simp add: sense_of_def term_sense_def split: option.splits if_splits)

lemma sense_of_recognized: "(sense_of h cfg t = None) = (\<not> recognized cfg t)"
  by (simp add: sense_of_def recognized_def split: option.splits)

lemma sense_updates_empty:
  "(sense_updates h cfg terms = []) = (\<not> list_ex (recognized cfg) terms)"
proof (induction terms)
  case Nil
  show ?case by (simp add: sense_updates_Nil)
next
  case (Cons t ts)
  then show ?case
    using sense_of_recognized [of h cfg t]
    by (cases "sense_of h cfg t") (simp_all add: sense_updates_Cons)
qed

lemma sense_updates_append:
  "sense_updates h cfg (xs @ ys) = sense_updates h cfg xs @ sense_updates h cfg ys"
  by (induction xs) (simp_all add: sense_updates_Nil sense_updates_Cons split: option.splits)

lemma sense_updates_keys:
  "k \<in> fst ` set (sense_updates h cfg terms) \<Longrightarrow>
   \<exists>t \<in> set terms. \<exists>n. sense_of h cfg t = Some (k, n)"
  by (induction terms)
     (auto simp add: sense_updates_Nil sense_updates_Cons split: option.splits)

lemma upds_has_key: "has_key (upds ps r) k = (k \<in> fst ` set ps \<or> has_key r k)"
  by (auto simp add: has_key_def upds_keys)

lemma all_updates_proto:
  "has_key (upds (all_updates h cfg original (has_key r ''__proto__'')) r) ''__proto__''
     = has_key r ''__proto__''"
proof (cases "has_key r ''__proto__''")
  case True
  then show ?thesis by (simp add: upds_has_key)
next
  case False
  have "''__proto__'' \<notin> fst ` set (all_updates h cfg original False)"
    using effective_no_proto [of "sense_updates h cfg (split_on CHR '','' original)"]
    by (simp add: all_updates_def Let_def)
  with False show ?thesis by (simp add: upds_has_key)
qed

subsection \<open>The outcome of the senses migration on a string\<close>

lemma senses_outcome:
  assumes "field_of s ''traits'' ''senses'' = Str original"
  shows "migrateSensesData h cfg s = (s, Some TypeError)
     \<or> (\<exists>s1 a v. (s1 = s \<or> (\<exists>a0. s1 = AList.update ''attributes'' a0 s)) \<and> ready s1 a v
           \<and> migrateSensesData h cfg s = senses_body h cfg original s1)"
proof -
  have m: "migrateSensesData h cfg s = seq senses_init (senses_body h cfg original) s"
    using assms by (simp add: migrateSensesData_split)
  from senses_init_cases [of s] consider
      (same) a v where "senses_init s = (s, None)" "ready s a v"
    | (made) a where "senses_init s = (AList.update ''attributes'' (Obj a) s, None)"
        "ready (AList.update ''attributes'' (Obj a) s) a (Obj [])"
    | (thrown) "senses_init s = (s, Some TypeError)"
    by blast
  then show ?thesis
  proof cases
    case same
    then have "migrateSensesData h cfg s = senses_body h cfg original s"
      by (simp add: m seq_def)
    with same(2) show ?thesis by blast
  next
    case made
    then have "migrateSensesData h cfg s =
        senses_body h cfg original (AList.update ''attributes'' (Obj a) s)"
      by (simp add: m seq_def)
    with made(2) show ?thesis by blast
  next
    case thrown
    then show ?thesis by (simp add: m seq_def)
  qed
qed

lemma senses_body_cases:
  assumes "ready s1 a v"
  shows "(\<exists>r. v = Obj r \<and> senses_body h cfg original s1 =
            (with_senses s1 a
               (upds (all_updates h cfg original (has_key r ''__proto__'')) r), None))
     \<or> ((\<forall>r. v \<noteq> Obj r) \<and> senses_body h cfg original s1 =
            (s1, if all_updates h cfg original False = [] then None else Some TypeError))"
proof (cases "\<exists>r. v = Obj r")
  case True
  then obtain r where "v = Obj r" by blast
  with senses_body_obj [of s1 a r h cfg original] assms show ?thesis by simp
next
  case False
  with senses_body_prim [OF assms, of h cfg original] show ?thesis by simp
qed

lemma senses_body_frame:
  assumes "ready s1 a v" "k \<noteq> ''attributes''"
  shows "lookup (fst (senses_body h cfg original s1)) k = lookup s1 k"
  using senses_body_cases [OF assms(1), of h cfg original] assms(2)
  by (auto simp add: with_senses_def lookup_update)

lemma migrateSensesData_frame:
  assumes "k \<noteq> ''attributes''"
  shows "lookup (fst (migrateSensesData h cfg s)) k = lookup s k"
proof (cases "\<exists>original. field_of s ''traits'' ''senses'' = Str original")
  case True
  then obtain original where "field_of s ''traits'' ''senses'' = Str original" by blast
  from senses_outcome [OF this, of h cfg] consider
      (thrown) "migrateSensesData h cfg s = (s, Some TypeError)"
    | (run) s1 a v where "s1 = s \<or> (\<exists>a0. s1 = AList.update ''attributes'' a0 s)"
        "ready s1 a v" "migrateSensesData h cfg s = senses_body h cfg original s1"
    by blast
  then show ?thesis
  proof cases
    case thrown
    then show ?thesis by simp
  next
    case run
    from run(1) assms have "lookup s1 k = lookup s k" by (auto simp add: lookup_update)
    with senses_body_frame [OF run(2) assms, of h cfg original] run(3) show ?thesis by simp
  qed
next
  case False
  then show ?thesis
    by (cases "field_of s ''traits'' ''senses''") (simp_all add: migrateSensesData_split)
qed

lemma migrateSensesData_settles: "settles (migrateSensesData h cfg)"
  unfolding settles_def
proof (intro allI impI)
  fix s :: "'a obj"
  assume ok: "snd (migrateSensesData h cfg s) = None"
  define s' where "s' = fst (migrateSensesData h cfg s)"
  have "migrateSensesData h cfg s' = (s', None)"
  proof (cases "\<exists>original. field_of s ''traits'' ''senses'' = Str original")
    case False
    then have "migrateSensesData h cfg s = (s, None)"
      by (cases "field_of s ''traits'' ''senses''") (simp_all add: migrateSensesData_split)
    then show ?thesis by (simp add: s'_def)
  next
    case True
    then obtain original where str: "field_of s ''traits'' ''senses'' = Str original" by blast
    have str': "field_of s' ''traits'' ''senses'' = Str original"
      using str by (simp add: s'_def migrateSensesData_frame)
    then have m': "migrateSensesData h cfg s' = seq senses_init (senses_body h cfg original) s'"
      by (simp add: migrateSensesData_split)
    from senses_outcome [OF str, of h cfg] ok obtain s1 a v where
      r: "ready s1 a v" and e: "migrateSensesData h cfg s = senses_body h cfg original s1"
      by auto
    from senses_body_cases [OF r, of h cfg original]
    show ?thesis
    proof (elim disjE exE conjE)
      fix r0 assume v: "v = Obj r0"
        and b: "senses_body h cfg original s1 =
                (with_senses s1 a
                   (upds (all_updates h cfg original (has_key r0 ''__proto__'')) r0), None)"
      define ups where "ups = all_updates h cfg original (has_key r0 ''__proto__'')"
      define r' where "r' = upds ups r0"
      define a' where "a' = AList.update ''senses'' (Obj r') a"
      have s': "s' = with_senses s1 a r'" by (simp add: s'_def e b r'_def ups_def)
      have r': "ready s' a' (Obj r')" unfolding s' a'_def by (rule ready_with_senses [OF r])
      have "has_key r' ''__proto__'' = has_key r0 ''__proto__''"
        unfolding r'_def ups_def by (rule all_updates_proto)
      then have "all_updates h cfg original (has_key r' ''__proto__'') = ups"
        by (simp add: ups_def)
      moreover have "upds ups r' = r'" by (simp add: r'_def upds_idem)
      ultimately have "senses_body h cfg original s' = (s', None)"
        using senses_body_obj [OF r', of h cfg original] by (simp add: with_senses_same [OF r'])
      then show ?thesis
        by (simp add: m' seq_def senses_init_ready [OF r'])
    next
      assume nv: "\<forall>r. v \<noteq> Obj r"
        and b: "senses_body h cfg original s1 =
                (s1, if all_updates h cfg original False = [] then None else Some TypeError)"
      from ok e b have s': "s' = s1" and b': "senses_body h cfg original s1 = (s1, None)"
        by (simp_all add: s'_def split: if_splits)
      show ?thesis
        by (simp only: m') (simp add: s' seq_def senses_init_ready [OF r] b')
    qed
  qed
  then show "migrateSensesData h cfg (fst (migrateSensesData h cfg s)) =
             (fst (migrateSensesData h cfg s), None)"
    by (simp add: s'_def)
qed

section \<open>Properties of both templates\<close>

subsection \<open>Idempotence\<close>

lemma settles_idempotent_at: "settles f \<Longrightarrow> idempotent_at f s"
  unfolding settles_def idempotent_at_def by (metis prod.collapse)

text \<open>
  C1. Each migration is idempotent: on every source on which it completes, applying it
  twice yields the same source as applying it once. This holds for
  \<^verbatim>\<open>ActivatedEffectTemplate.migrateData\<close>, for each of its five sub-migrations, and for the
  senses migration of \<^verbatim>\<open>CreatureTemplate\<close>. The formula fields rely on one fact about the
  engine's \<^verbatim>\<open>Number.prototype.toString\<close>: it prints \<^verbatim>\<open>"0"\<close> for a zero only.
\<close>

theorem migrations_idempotent:
  assumes "\<forall>n. numToString h n = ''0'' \<longrightarrow> isZero h n"
  shows "idempotent_at (migrateData h) s
       \<and> idempotent_at (migrateFormulaFields h) s
       \<and> idempotent_at (migrateRanges h) s
       \<and> idempotent_at migrateTargets s
       \<and> idempotent_at (migrateUses h) s
       \<and> idempotent_at (migrateConsume h) s
       \<and> idempotent_at (migrateSensesData h cfg) s"
  by (intro conjI settles_idempotent_at migrateData_settles [OF assms]
        migrateFormulaFields_settles [OF assms] migrateSensesData_settles
        acts_on_settles [OF migrateRanges_acts] ranges_obj_idem
        acts_on_settles [OF migrateTargets_acts] targets_obj_idem
        acts_on_settles [OF migrateUses_acts] uses_obj_idem
        acts_on_settles [OF migrateConsume_acts] consume_obj_idem)

theorem migrations_idempotent_witness:
  "snd (migrateData int_host sample_item) = None
   \<and> migrateData int_host (fst (migrateData int_host sample_item))
       = migrateData int_host sample_item
   \<and> snd (migrateSensesData int_host sample_senses sample_actor) = None
   \<and> migrateSensesData int_host sample_senses
        (fst (migrateSensesData int_host sample_senses sample_actor))
       = migrateSensesData int_host sample_senses sample_actor"
  using migrations_idempotent [OF int_host_zero, of sample_item sample_senses]
    migrations_idempotent [OF int_host_zero, of sample_actor sample_senses]
  by (simp add: idempotent_at_def sample_item_run sample_actor_run)

subsection \<open>The legacy senses string is kept\<close>

text \<open>
  C10. The legacy string is copied, not moved: when \<^verbatim>\<open>traits.senses\<close> is a string, it is
  still there, with the same value, after the senses migration (whether it completes or
  throws).
\<close>

theorem senses_string_kept:
  "field_of s ''traits'' ''senses'' = Str original \<Longrightarrow>
   field_of (fst (migrateSensesData h cfg s)) ''traits'' ''senses'' = Str original"
  by (simp add: migrateSensesData_frame)

theorem senses_string_kept_witness:
  "field_of sample_actor ''traits'' ''senses'' = Str ''Darkvision 60 ft, Blindsight 30 ft.''
   \<and> field_of (fst (migrateSensesData int_host sample_senses sample_actor)) ''traits'' ''senses''
       = Str ''Darkvision 60 ft, Blindsight 30 ft.''"
proof -
  have 1: "field_of sample_actor ''traits'' ''senses'' = Str ''Darkvision 60 ft, Blindsight 30 ft.''"
    by code_simp
  from senses_string_kept [OF 1, of int_host sample_senses] 1 show ?thesis by blast
qed

subsection \<open>What the senses migration writes\<close>

lemma lookup_single: "lookup [(k, v)] k' = (if k' = k then v else Undefined)"
  by (simp add: lookup_def)

lemma senses_init_senses:
  assumes "senses_init s = (s1, None)"
  shows "sense_in s1 k = sense_in s k"
proof (cases "nullish (lookup s ''attributes'')")
  case True
  from senses_init_nullish [OF True] assms
  have "s1 = AList.update ''attributes'' (Obj [(''senses'', Obj [])]) s" by simp
  with True show ?thesis
    by (auto simp add: nullish_def getq_def lookup_update lookup_single lookup_Nil)
next
  case False
  show ?thesis
  proof (cases "lookup s ''attributes''")
    case (Obj a)
    show ?thesis
    proof (cases "nullish (lookup a ''senses'')")
      case True
      from senses_init_obj_nullish [OF Obj True] assms
      have "s1 = AList.update ''attributes'' (Obj (AList.update ''senses'' (Obj []) a)) s"
        by simp
      with True Obj show ?thesis
        by (auto simp add: nullish_def getq_def lookup_update lookup_single lookup_Nil)
    next
      case nn: False
      then have "map_of a ''senses'' = Some (lookup a ''senses'')"
        by (cases "map_of a ''senses''") (simp_all add: lookup_def nullish_def)
      moreover from Obj have "map_of s ''attributes'' = Some (Obj a)"
        by (cases "map_of s ''attributes''") (simp_all add: lookup_def)
      ultimately have "ready s a (lookup a ''senses'')"
        using nn by (simp add: ready_def)
      from senses_init_ready [OF this] assms show ?thesis by simp
    qed
  qed (use False assms in \<open>simp_all add: senses_init_def stmt_defs nullish_def\<close>)
qed

lemma senses_writable_init:
  assumes w: "senses_writable s"
  shows "\<exists>s1 a r. senses_init s = (s1, None) \<and> ready s1 a (Obj r)"
proof (cases "nullish (lookup s ''attributes'')")
  case True
  have "ready (AList.update ''attributes'' (Obj [(''senses'', Obj [])]) s)
          [(''senses'', Obj [])] (Obj [])"
    by (simp add: ready_def update_conv' nullish_def)
  with senses_init_nullish [OF True] show ?thesis by blast
next
  case False
  with w obtain a where a: "lookup s ''attributes'' = Obj a"
    by (cases "lookup s ''attributes''") (simp_all add: senses_writable_def nullish_def)
  then have ma: "map_of s ''attributes'' = Some (Obj a)" by (rule lookup_obj)
  show ?thesis
  proof (cases "nullish (lookup a ''senses'')")
    case True
    have "ready (AList.update ''attributes'' (Obj (AList.update ''senses'' (Obj []) a)) s)
            (AList.update ''senses'' (Obj []) a) (Obj [])"
      by (simp add: ready_def update_conv' nullish_def)
    with senses_init_obj_nullish [OF a True] show ?thesis by blast
  next
    case False
    with w a obtain r where r: "lookup a ''senses'' = Obj r"
      by (cases "lookup a ''senses''") (simp_all add: senses_writable_def nullish_def)
    then have "map_of a ''senses'' = Some (Obj r)" by (rule lookup_obj)
    with ma have "ready s a (Obj r)" by (simp add: ready_def nullish_def)
    with senses_init_ready [OF this] show ?thesis by blast
  qed
qed

lemma senses_writable_run:
  assumes str: "field_of s ''traits'' ''senses'' = Str original" and w: "senses_writable s"
  shows "\<exists>r own. snd (migrateSensesData h cfg s) = None
           \<and> field_of (fst (migrateSensesData h cfg s)) ''attributes'' ''senses''
               = Obj (upds (all_updates h cfg original own) r)
           \<and> (\<forall>k. getq (Obj r) k = sense_in s k)"
proof -
  have m: "migrateSensesData h cfg s = seq senses_init (senses_body h cfg original) s"
    using str by (simp add: migrateSensesData_split)
  from senses_writable_init [OF w] obtain s1 a r where
    i: "senses_init s = (s1, None)" and rd: "ready s1 a (Obj r)" by blast
  let ?r' = "upds (all_updates h cfg original (has_key r ''__proto__'')) r"
  have e: "migrateSensesData h cfg s = (with_senses s1 a ?r', None)"
    by (simp add: m seq_def i senses_body_obj [OF rd])
  have "field_of (with_senses s1 a ?r') ''attributes'' ''senses'' = Obj ?r'"
    by (simp add: with_senses_def lookup_update getq_def)
  moreover have "\<forall>k. getq (Obj r) k = sense_in s k"
    using senses_init_senses [OF i] ready_lookup [OF rd] by (simp add: getq_def)
  ultimately show ?thesis using e by auto
qed

lemma senses_writable_completes:
  assumes str: "field_of s ''traits'' ''senses'' = Str original" and w: "senses_writable s"
  shows "snd (migrateSensesData h cfg s) = None"
  using senses_writable_run [OF assms, of h cfg] by auto

lemma senses_written:
  assumes str: "field_of s ''traits'' ''senses'' = Str original"
    and w: "senses_writable s"
    and last: "\<And>own. all_updates h cfg original own = ps own @ (k, v) # qs own"
      "\<And>own. k \<notin> fst ` set (qs own)"
  shows "sense_in (fst (migrateSensesData h cfg s)) k = v"
proof -
  from senses_writable_run [OF str w, of h cfg] obtain r own where
    "field_of (fst (migrateSensesData h cfg s)) ''attributes'' ''senses''
       = Obj (upds (all_updates h cfg original own) r)"
    by blast
  then show ?thesis
    using upds_last [where k = k and qs = "qs own" and ps = "ps own" and v = v and r = r,
        OF last(2)]
    by (simp add: last(1) getq_def lookup_def)
qed

lemma assign3_obj_completes:
  "field_of s k1 k2 = Obj r \<Longrightarrow> snd (assign3 k1 k2 k3 x s) = None"
  by (cases "lookup s k1") (simp_all add: assign3_def assign2_def get_def put_def getq_def)

text \<open>
  C3, as stated, fails on two sources. On the empty string no term names a sense type, the
  migration completes, and \<^verbatim>\<open>attributes.senses.special\<close> is not set. On
  \<^verbatim>\<open>"Constructor 60 ft"\<close> no term names a sense type either, but \<^verbatim>\<open>constructor\<close> passes the test
  \<^verbatim>\<open>type in CONFIG.DND5E.senses\<close> as an inherited name: the migration sets
  \<^verbatim>\<open>attributes.senses.constructor\<close> to 60 and does not set \<^verbatim>\<open>special\<close>.
\<close>

theorem unmatched_senses_not_special:
  "field_of sample_blank ''traits'' ''senses'' = Str ''''
   \<and> \<not> list_ex (names_sense sample_senses) (split_on CHR '','' '''')
   \<and> snd (migrateSensesData int_host sample_senses sample_blank) = None
   \<and> sense_in (fst (migrateSensesData int_host sample_senses sample_blank)) ''special''
       = Undefined
   \<and> sense_in (fst (migrateSensesData int_host sample_senses sample_blank)) ''special''
       \<noteq> Str ''''
   \<and> field_of sample_golem ''traits'' ''senses'' = Str ''Constructor 60 ft''
   \<and> \<not> list_ex (names_sense sample_senses) (split_on CHR '','' ''Constructor 60 ft'')
   \<and> snd (migrateSensesData int_host sample_senses sample_golem) = None
   \<and> sense_in (fst (migrateSensesData int_host sample_senses sample_golem)) ''special''
       = Undefined
   \<and> sense_in (fst (migrateSensesData int_host sample_senses sample_golem)) ''special''
       \<noteq> Str ''Constructor 60 ft''
   \<and> sense_in (fst (migrateSensesData int_host sample_senses sample_golem)) ''constructor''
       = Num 60"
  by code_simp

text \<open>
  C3, amended. For every source whose \<^verbatim>\<open>traits.senses\<close> is a string in which no
  comma-separated term is recognized, that is, matches the pattern with a lowercased name
  that is a key of \<^verbatim>\<open>CONFIG.DND5E.senses\<close> or a property name that the object inherits
  (and whose \<^verbatim>\<open>attributes\<close> and \<^verbatim>\<open>attributes.senses\<close> are each absent, \<^verbatim>\<open>null\<close> or an object),
  the senses migration completes; when the string is not empty it stores the entire
  original string unchanged in \<^verbatim>\<open>attributes.senses.special\<close>, and when the string is
  empty it stores nothing there: \<^verbatim>\<open>special\<close> is what it was.
\<close>

theorem unmatched_senses_special:
  assumes "field_of s ''traits'' ''senses'' = Str original"
    and "\<not> list_ex (recognized cfg) (split_on CHR '','' original)"
    and "senses_writable s"
  shows "snd (migrateSensesData h cfg s) = None
       \<and> sense_in (fst (migrateSensesData h cfg s)) ''special''
           = (if original = '''' then sense_in s ''special'' else Str original)"
proof (cases "original = ''''")
  case False
  with assms(2) have "\<And>own. all_updates h cfg original own = [] @ (''special'', Str original) # []"
    by (simp add: all_updates_def sense_updates_empty)
  from senses_written [OF assms(1,3), of h cfg "\<lambda>_. []" "''special''" "Str original" "\<lambda>_. []",
      OF this]
    senses_writable_completes [OF assms(1,3)] False
  show ?thesis by simp
next
  case True
  from assms(2) have su: "sense_updates h cfg (split_on CHR '','' original) = []"
    by (simp add: sense_updates_empty)
  have none: "\<And>own. all_updates h cfg original own = []"
    unfolding all_updates_def Let_def su using True by (simp add: effective_Nil)
  from senses_writable_run [OF assms(1,3), of h cfg] obtain r own where
    "field_of (fst (migrateSensesData h cfg s)) ''attributes'' ''senses''
       = Obj (upds (all_updates h cfg original own) r)"
    "\<forall>k. getq (Obj r) k = sense_in s k"
    by blast
  then have "sense_in (fst (migrateSensesData h cfg s)) ''special'' = sense_in s ''special''"
    by (simp add: none upds_Nil)
  with senses_writable_completes [OF assms(1,3)] True show ?thesis by simp
qed

theorem unmatched_senses_special_witness:
  "field_of sample_hermit ''traits'' ''senses'' = Str ''Can smell fear''
   \<and> \<not> list_ex (recognized sample_senses) (split_on CHR '','' ''Can smell fear'')
   \<and> senses_writable sample_hermit
   \<and> snd (migrateSensesData int_host sample_senses sample_hermit) = None
   \<and> sense_in (fst (migrateSensesData int_host sample_senses sample_hermit)) ''special''
       = Str ''Can smell fear''
   \<and> field_of sample_blank ''traits'' ''senses'' = Str ''''
   \<and> \<not> list_ex (recognized sample_senses) (split_on CHR '','' '''')
   \<and> senses_writable sample_blank
   \<and> sense_in sample_blank ''special'' = Undefined
   \<and> snd (migrateSensesData int_host sample_senses sample_blank) = None
   \<and> sense_in (fst (migrateSensesData int_host sample_senses sample_blank)) ''special''
       = Undefined"
proof -
  have 1: "field_of sample_hermit ''traits'' ''senses'' = Str ''Can smell fear''"
    by code_simp
  have 2: "\<not> list_ex (recognized sample_senses) (split_on CHR '','' ''Can smell fear'')"
    by code_simp
  have 3: "senses_writable sample_hermit" by code_simp
  have 4: "field_of sample_blank ''traits'' ''senses'' = Str ''''" by code_simp
  have 5: "\<not> list_ex (recognized sample_senses) (split_on CHR '','' '''')" by code_simp
  have 6: "senses_writable sample_blank" by code_simp
  have 7: "sense_in sample_blank ''special'' = Undefined" by code_simp
  from unmatched_senses_special [OF 1 2 3, of int_host]
    unmatched_senses_special [OF 4 5 6, of int_host] 1 2 3 4 5 6 7
  show ?thesis by simp
qed

lemma assign3_written:
  "snd (assign3 k1 k2 k3 x s) = None \<Longrightarrow>
   getq (field_of (fst (assign3 k1 k2 k3 x s)) k1 k2) k3 = x"
  by (auto simp add: assign3_def assign2_def get_def put_def getq_def lookup_update
        split: jsval.splits sum.splits)

text \<open>
  C6. The senses string is matched term by term. First, for the loop body, which runs with
  \<^verbatim>\<open>attributes.senses\<close> an object: on a term that matches the pattern with a lowercased
  name \<open>k\<close> among the configured senses and digits \<open>d\<close>, the iteration completes and has
  set \<^verbatim>\<open>attributes.senses[k]\<close> to \<^verbatim>\<open>Number(d).toNearest(0.5)\<close> and \<^verbatim>\<open>wasMatched\<close> to true.
  Second, for the whole migration (on a source whose \<^verbatim>\<open>attributes\<close> and
  \<^verbatim>\<open>attributes.senses\<close> are each absent, \<^verbatim>\<open>null\<close> or an object): it completes, and that
  value is the one \<^verbatim>\<open>attributes.senses[k]\<close> holds at the end, for every such term that
  no later term with the same name overwrites. The one name set apart is \<^verbatim>\<open>__proto__\<close>,
  were it a key of the configured senses: an assignment to it is one to the accessor of
  \<^verbatim>\<open>Object.prototype\<close>, not to a property of the senses.
\<close>

theorem senses_terms_matched:
  "(\<forall>t k d w r. term_sense cfg t = Some (k, d) \<and> k \<noteq> ''__proto__''
        \<and> field_of s ''attributes'' ''senses'' = Obj r
      \<longrightarrow> snd (senses_term h cfg t (s, w)) = None
        \<and> sense_in (fst (fst (senses_term h cfg t (s, w)))) k = sense_value h d
        \<and> snd (fst (senses_term h cfg t (s, w))))
   \<and> (\<forall>original pre t post k d.
        field_of s ''traits'' ''senses'' = Str original
        \<and> senses_writable s
        \<and> split_on CHR '','' original = pre @ t # post
        \<and> term_sense cfg t = Some (k, d) \<and> k \<noteq> ''__proto__''
        \<and> \<not> list_ex (\<lambda>t'. map_option fst (term_sense cfg t') = Some k) post
      \<longrightarrow> snd (migrateSensesData h cfg s) = None
        \<and> sense_in (fst (migrateSensesData h cfg s)) k = sense_value h d)"
proof (intro conjI allI impI; (elim conjE)?)
  fix t k d w r
  assume a: "term_sense cfg t = Some (k, d)" "k \<noteq> ''__proto__''"
    "field_of s ''attributes'' ''senses'' = Obj r"
  let ?n = "toNearestHalf h (toNumber h (Str d))"
  from a have so: "sense_of h cfg t = Some (k, ?n)"
    by (simp add: sense_of_term_sense)
  have v: "sense_value h d = Num ?n" by (simp add: sense_value_def)
  from a(2) have n: "assign3_number ''attributes'' ''senses'' k ?n s
      = assign3 ''attributes'' ''senses'' k (Num ?n) s"
    by (rule assign3_number_plain)
  from a(3) have ok: "snd (assign3 ''attributes'' ''senses'' k (Num ?n) s) = None"
    by (rule assign3_obj_completes)
  then obtain s1 where s1: "assign3 ''attributes'' ''senses'' k (Num ?n) s = (s1, None)"
    by (cases "assign3 ''attributes'' ''senses'' k (Num ?n) s") simp
  from s1 so n show "snd (senses_term h cfg t (s, w)) = None"
    by (simp add: senses_term_sense_of)
  from assign3_written [OF ok] s1 so n v
  show "sense_in (fst (fst (senses_term h cfg t (s, w)))) k = sense_value h d"
    by (simp add: senses_term_sense_of)
  from s1 so n show "snd (fst (senses_term h cfg t (s, w)))"
    by (simp add: senses_term_sense_of)
next
  fix original pre t post k d
  assume a: "field_of s ''traits'' ''senses'' = Str original"
    "senses_writable s"
    "split_on CHR '','' original = pre @ t # post"
    "term_sense cfg t = Some (k, d)" "k \<noteq> ''__proto__''"
    "\<not> list_ex (\<lambda>t'. map_option fst (term_sense cfg t') = Some k) post"
  let ?n = "toNearestHalf h (toNumber h (Str d))"
  from a have so: "sense_of h cfg t = Some (k, ?n)"
    by (simp add: sense_of_term_sense)
  have v: "sense_value h d = Num ?n" by (simp add: sense_value_def)
  from a(4) have own: "k \<in> set cfg"
    by (auto simp add: term_sense_def split: option.splits if_splits)
  have notin: "k \<notin> fst ` set (sense_updates h cfg post)"
  proof
    assume "k \<in> fst ` set (sense_updates h cfg post)"
    from sense_updates_keys [OF this] obtain t' n where "t' \<in> set post"
      "sense_of h cfg t' = Some (k, n)" by blast
    with sense_of_own [OF this(2) own] a(6) show False
      by (auto simp add: list_ex_iff)
  qed
  have u: "\<And>own. all_updates h cfg original own =
      effective own (sense_updates h cfg pre) @ (k, sense_value h d)
        # effective own (sense_updates h cfg post)"
    using a(3,5) so v
    by (simp add: all_updates_def sense_updates_append sense_updates_Cons effective_append
          effective_Cons)
  have notin': "\<And>own. k \<notin> fst ` set (effective own (sense_updates h cfg post))"
    using notin effective_keys by blast
  show ok: "snd (migrateSensesData h cfg s) = None"
    by (rule senses_writable_completes [OF a(1,2)])
  from senses_written [OF a(1,2), of h cfg "\<lambda>own. effective own (sense_updates h cfg pre)"
      k "sense_value h d" "\<lambda>own. effective own (sense_updates h cfg post)", OF u notin']
  show "sense_in (fst (migrateSensesData h cfg s)) k = sense_value h d" .
qed

theorem senses_terms_matched_witness:
  "term_sense sample_senses '' Blindsight 30 ft.'' = Some (''blindsight'', ''30'')
   \<and> ''blindsight'' \<noteq> ''__proto__''
   \<and> field_of sample_sensed ''attributes'' ''senses'' = Obj [(''darkvision'', Num 60)]
   \<and> snd (senses_term int_host sample_senses '' Blindsight 30 ft.'' (sample_sensed, False)) = None
   \<and> sense_value int_host ''30'' = Num 30
   \<and> sense_in (fst (fst (senses_term int_host sample_senses '' Blindsight 30 ft.''
         (sample_sensed, False)))) ''blindsight'' = Num 30
   \<and> snd (fst (senses_term int_host sample_senses '' Blindsight 30 ft.'' (sample_sensed, False)))
   \<and> field_of sample_actor ''traits'' ''senses'' = Str ''Darkvision 60 ft, Blindsight 30 ft.''
   \<and> senses_writable sample_actor
   \<and> split_on CHR '','' ''Darkvision 60 ft, Blindsight 30 ft.''
       = [] @ ''Darkvision 60 ft'' # ['' Blindsight 30 ft.'']
   \<and> term_sense sample_senses ''Darkvision 60 ft'' = Some (''darkvision'', ''60'')
   \<and> ''darkvision'' \<noteq> ''__proto__''
   \<and> \<not> list_ex (\<lambda>t'. map_option fst (term_sense sample_senses t') = Some ''darkvision'')
         ['' Blindsight 30 ft.'']
   \<and> sense_value int_host ''60'' = Num 60
   \<and> snd (migrateSensesData int_host sample_senses sample_actor) = None
   \<and> sense_in (fst (migrateSensesData int_host sample_senses sample_actor)) ''darkvision''
       = Num 60"
proof -
  have 1: "term_sense sample_senses '' Blindsight 30 ft.'' = Some (''blindsight'', ''30'')"
    by code_simp
  have 2: "field_of sample_sensed ''attributes'' ''senses'' = Obj [(''darkvision'', Num 60)]"
    by code_simp
  have 3: "sense_value int_host ''30'' = Num 30" "sense_value int_host ''60'' = Num 60"
    by code_simp+
  have 4: "field_of sample_actor ''traits'' ''senses'' = Str ''Darkvision 60 ft, Blindsight 30 ft.''"
    by code_simp
  have 5: "senses_writable sample_actor" by code_simp
  have 6: "split_on CHR '','' ''Darkvision 60 ft, Blindsight 30 ft.''
       = [] @ ''Darkvision 60 ft'' # ['' Blindsight 30 ft.'']"
    by code_simp
  have 7: "term_sense sample_senses ''Darkvision 60 ft'' = Some (''darkvision'', ''60'')"
    by code_simp
  have 8: "\<not> list_ex (\<lambda>t'. map_option fst (term_sense sample_senses t') = Some ''darkvision'')
         ['' Blindsight 30 ft.'']"
    by code_simp
  have 11: "''blindsight'' \<noteq> ''__proto__''" "''darkvision'' \<noteq> ''__proto__''" by simp_all
  note t = senses_terms_matched [of sample_senses _ int_host]
  from t [of sample_sensed] 1 2 11 have 9:
    "snd (senses_term int_host sample_senses '' Blindsight 30 ft.'' (sample_sensed, False)) = None"
    "sense_in (fst (fst (senses_term int_host sample_senses '' Blindsight 30 ft.''
         (sample_sensed, False)))) ''blindsight'' = sense_value int_host ''30''"
    "snd (fst (senses_term int_host sample_senses '' Blindsight 30 ft.'' (sample_sensed, False)))"
    by blast+
  from t [of sample_actor] 4 5 6 7 8 11 have 10:
    "snd (migrateSensesData int_host sample_senses sample_actor) = None"
    "sense_in (fst (migrateSensesData int_host sample_senses sample_actor)) ''darkvision''
       = sense_value int_host ''60''"
    by blast+
  from 1 2 3 4 5 6 7 8 9 10 show ?thesis by simp
qed

subsection \<open>Sources on which the item migration throws\<close>

text \<open>
  C2. Migration is claimed never to throw, whatever the shape of \<^verbatim>\<open>range\<close>,
  \<^verbatim>\<open>uses\<close> and \<^verbatim>\<open>consume\<close>. The code tests \<^verbatim>\<open>"range" in source\<close> and then reads
  \<^verbatim>\<open>source.range.units\<close>: on a source whose \<^verbatim>\<open>range\<close> (or \<^verbatim>\<open>uses\<close>, or \<^verbatim>\<open>consume\<close>)
  is \<^verbatim>\<open>null\<close>, \<^verbatim>\<open>ActivatedEffectTemplate.migrateData\<close> throws a TypeError, and on a source
  whose \<^verbatim>\<open>uses\<close> is a number it throws on the assignment of \<^verbatim>\<open>uses.recovery\<close>.
\<close>

theorem migrateData_throws:
  "migrateData h [(''range'', Null)] = ([(''range'', Null)], Some TypeError)
   \<and> migrateData h [(''uses'', Null)] = ([(''uses'', Null)], Some TypeError)
   \<and> migrateData h [(''consume'', Null)] = ([(''consume'', Null)], Some TypeError)
   \<and> migrateData h [(''uses'', Num n)] = ([(''uses'', Num n)], Some TypeError)"
  by (simp add: migrateData_def migrateFormulaFields_def formula_field_def migrateRanges_def
      ranges_units_def migrateTargets_def migrateUses_def uses_value_def uses_recovery_def
      migrateConsume_def consume_type_def
      stmt_defs lookup_def has_key_def zero_or_null_def typeof_def)

subsection \<open>A source without a senses string\<close>

text \<open>
  C8. A source whose \<^verbatim>\<open>traits.senses\<close> is absent or is not a string is left entirely
  unchanged by the senses migration, which completes.
\<close>

theorem senses_not_string_unchanged:
  "\<forall>str. field_of s ''traits'' ''senses'' \<noteq> Str str \<Longrightarrow>
   migrateSensesData h cfg s = (s, None)"
  by (cases "field_of s ''traits'' ''senses''") (simp_all add: migrateSensesData_def)

theorem senses_not_string_unchanged_witness:
  "field_of sample_current ''traits'' ''senses'' = Undefined
   \<and> migrateSensesData int_host sample_senses sample_current = (sample_current, None)"
proof -
  have 1: "field_of sample_current ''traits'' ''senses'' = Undefined" by code_simp
  then have "\<forall>str. field_of sample_current ''traits'' ''senses'' \<noteq> Str str" by simp
  from senses_not_string_unchanged [OF this, of int_host sample_senses] 1
  show ?thesis by blast
qed

end
